theory Spec2Isabelle
  imports Main "HOL-Library.AList"
begin

section \<open>Python and library primitives\<close>

text \<open>
  \<^verbatim>\<open>s.split(sep)\<close> for a non-empty separator: the string is scanned from the left, every
  occurrence of \<open>sep\<close> found ends the current part and the scan resumes behind it. The
  result is never empty. (Python raises on an empty separator; both call sites pass a
  literal, \<^verbatim>\<open>'__'\<close> and \<^verbatim>\<open>','\<close>, and for an empty separator the model never cuts.)
\<close>

fun py_split :: "string \<Rightarrow> string \<Rightarrow> string list" where
  "py_split sep [] = [[]]"
| "py_split sep (c # cs) =
     (if sep \<noteq> [] \<and> take (length sep) (c # cs) = sep
      then [] # py_split sep (drop (length sep) (c # cs))
      else (case py_split sep cs of
              [] \<Rightarrow> [[c]]
            | p # ps \<Rightarrow> (c # p) # ps))"

text \<open>
  \<^verbatim>\<open>sep.join(parts)\<close>. The source does not call it; it serves to say what a split is: the
  parts of a split, joined by the separator, are the string that was split.
\<close>

fun py_join :: "string \<Rightarrow> string list \<Rightarrow> string" where
  "py_join sep [] = []"
| "py_join sep [p] = p"
| "py_join sep (p # q # ps) = p @ sep @ py_join sep (q # ps)"

text \<open>
  A Python \<^verbatim>\<open>dict\<close> built from a sequence of pairs: a key keeps the position of its first
  insertion and the value of its last. The request's \<^verbatim>\<open>query_params\<close> is such a mapping
  over the pairs of the query string (its \<^verbatim>\<open>items()\<close>, \<^verbatim>\<open>get\<close> and \<^verbatim>\<open>**\<close> unpacking all read
  the dict), and the two dict comprehensions of \<^verbatim>\<open>filter\<close> build one as well.
\<close>

fun py_dict_from :: "('k \<times> 'v) list \<Rightarrow> ('k \<times> 'v) list \<Rightarrow> ('k \<times> 'v) list" where
  "py_dict_from d [] = d"
| "py_dict_from d ((k, v) # ps) = py_dict_from (AList.update k v d) ps"

definition py_dict :: "('k \<times> 'v) list \<Rightarrow> ('k \<times> 'v) list" where
  "py_dict ps = py_dict_from [] ps"

section \<open>Data model\<close>

text \<open>\<^verbatim>\<open>ORM_LOOKUP_MAPPING\<close>: operator suffix of a parameter key to column method.\<close>

definition ORM_LOOKUP_MAPPING :: "(string \<times> string) list" where
  "ORM_LOOKUP_MAPPING =
     [(''neq'', ''__ne__''),
      (''gt'', ''__gt__''),
      (''gte'', ''__ge__''),
      (''lt'', ''__lt__''),
      (''lte'', ''__le__''),
      (''in'', ''in_''),
      (''not_in'', ''not_in''),
      (''regexp'', ''regexp_match'')]"

text \<open>\<^verbatim>\<open>LookupInfo(field_name, lookup, value)\<close>.\<close>

record LookupInfo =
  field_name :: string
  lookup :: string
  raw_value :: string

text \<open>
  \<^verbatim>\<open>FilterFieldInfo\<close>: the declared type of a field (\<^verbatim>\<open>annotation\<close>, which may be missing)
  and the two flags. The declared types \<open>'t\<close> are the caller's.
\<close>

record 't FilterFieldInfo =
  annotation :: "'t option"
  orderable :: bool
  searchable :: bool

text \<open>
  The class attributes of a \<^verbatim>\<open>BaseFilter\<close> subclass. \<^verbatim>\<open>schema\<close> is the schema's
  \<^verbatim>\<open>model_fields\<close> in declaration order; \<^verbatim>\<open>orm_model\<close> is represented by the names of the
  attributes the entity class has, which is all that \<^verbatim>\<open>getattr\<close> on it depends on.
\<close>

record 't BaseFilter_class =
  orm_model :: "string list"
  schema :: "(string \<times> 't FilterFieldInfo) list"
  ordering_param :: string
  search_param :: string
  default_ordering :: string

text \<open>A validated value: \<^verbatim>\<open>None\<close> (the default of an absent field), a scalar or a list.\<close>

datatype 'v pyval = PyNone | Scalar 'v | PyList "'v list"

text \<open>
  Errors. Every request error of the source is a \<^verbatim>\<open>RequestValidationError\<close> carrying a
  list of details: one of the four messages built by \<^verbatim>\<open>filter\<close> and \<^verbatim>\<open>order\<close>, or the
  line errors of a failed validation (location and kind). \<^verbatim>\<open>getattr\<close> on a missing
  attribute and indexing an empty string raise Python's own exceptions, and the column
  methods \<^verbatim>\<open>in_\<close> and \<^verbatim>\<open>not_in\<close> raise the query library's \<^verbatim>\<open>ArgumentError\<close> on an argument
  that is not a list.
\<close>

datatype loc_item = LocField string | LocIndex nat

datatype line_kind =
    CoercionFailure
  | UnknownFieldType
  | ContextRequired
  | IntParsing
  | GreaterThanEqual int
  | LessThanEqual int

datatype detail =
    UnknownLookup string
  | UnknownFilteringField string
  | UnknownOrderingField string
  | OrderingNotPermitted string
  | LineError "loc_item list" line_kind

datatype error =
    RequestValidationError "detail list"
  | AttributeError string
  | IndexError
  | ArgumentError string

text \<open>
  The query under construction: the criteria passed to \<^verbatim>\<open>.filter\<close> (column, column method,
  argument), the ranking joins added by \<^verbatim>\<open>search\<close> (searched columns, search text), the
  \<^verbatim>\<open>order_by\<close> clauses in the order they were added, and offset and limit.
\<close>

datatype 'v criterion = Criterion string string "'v pyval"

datatype order_clause = ColumnAsc string | ColumnDesc string | TextDesc string

record 'v Select =
  whereclause :: "'v criterion list"
  joins :: "(string list \<times> string) list"
  order_by_clauses :: "order_clause list"
  offset_clause :: "int option"
  limit_clause :: "int option"

definition select :: "'v Select" where
  "select = \<lparr>whereclause = [], joins = [], order_by_clauses = [],
             offset_clause = None, limit_clause = None\<rparr>"

text \<open>\<^verbatim>\<open>BasePaginator\<close> (its \<^verbatim>\<open>results\<close> are the empty list until the response is built).\<close>

record BasePaginator =
  page :: int
  per_page :: int

text \<open>A \<^verbatim>\<open>BaseFilter\<close> instance: the request's pairs, \<^verbatim>\<open>_query\<close> and the paginator.\<close>

record 'v BaseFilter =
  request :: "(string \<times> string) list"
  query :: "'v Select"
  paginator :: BasePaginator

definition query_params :: "'v BaseFilter \<Rightarrow> (string \<times> string) list" where
  "query_params self = py_dict (request self)"

section \<open>Construction: the paginator\<close>

text \<open>
  One integer field of \<^verbatim>\<open>BasePaginator\<close> under \<^verbatim>\<open>model_validate\<close>: absent, it takes its
  default; present, the string is parsed as an integer (\<open>parse_int\<close>, the validation
  library's integer parser) and checked against the bounds of its \<^verbatim>\<open>Field\<close>.
\<close>

definition int_field ::
  "(string \<Rightarrow> int option) \<Rightarrow> string \<Rightarrow> int \<Rightarrow> int \<Rightarrow> int option
     \<Rightarrow> (string \<times> string) list \<Rightarrow> detail list + int" where
  "int_field parse_int name dflt ge le obj =
     (case map_of obj name of
        None \<Rightarrow> Inr dflt
      | Some s \<Rightarrow>
          (case parse_int s of
             None \<Rightarrow> Inl [LineError [LocField name] IntParsing]
           | Some n \<Rightarrow>
               if n < ge then Inl [LineError [LocField name] (GreaterThanEqual ge)]
               else (case le of
                       None \<Rightarrow> Inr n
                     | Some hi \<Rightarrow>
                         if hi < n then Inl [LineError [LocField name] (LessThanEqual hi)]
                         else Inr n)))"

definition BasePaginator_model_validate ::
  "(string \<Rightarrow> int option) \<Rightarrow> (string \<times> string) list \<Rightarrow> detail list + BasePaginator" where
  "BasePaginator_model_validate parse_int obj =
     (case (int_field parse_int ''page'' 0 0 None obj,
            int_field parse_int ''per_page'' 10 1 (Some 100) obj) of
        (Inr p, Inr pp) \<Rightarrow> Inr \<lparr>page = p, per_page = pp\<rparr>
      | (Inl es, Inr pp) \<Rightarrow> Inl es
      | (Inr p, Inl es) \<Rightarrow> Inl es
      | (Inl es, Inl es') \<Rightarrow> Inl (es @ es'))"

text \<open>
  \<^verbatim>\<open>__init__\<close>. The validated object is \<^verbatim>\<open>{**query_params, 'results': []}\<close>; the paginator
  reads \<^verbatim>\<open>page\<close> and \<^verbatim>\<open>per_page\<close> from it, and \<^verbatim>\<open>results\<close> is the empty list whatever the
  request says.
\<close>

definition init ::
  "(string \<Rightarrow> int option) \<Rightarrow> (string \<times> string) list \<Rightarrow> error + 'v BaseFilter" where
  "init parse_int req =
     (case BasePaginator_model_validate parse_int (py_dict req) of
        Inl es \<Rightarrow> Inl (RequestValidationError es)
      | Inr p \<Rightarrow> Inr \<lparr>request = req, query = select, paginator = p\<rparr>)"

definition inject_query :: "'v Select \<Rightarrow> 'v BaseFilter \<Rightarrow> 'v BaseFilter" where
  "inject_query q self = self\<lparr>query := q\<rparr>"

definition get_query :: "'v BaseFilter \<Rightarrow> 'v Select" where
  "get_query self = query self"

section \<open>The filter stage\<close>

subsection \<open>Parsing the keys\<close>

definition reserved :: "'t BaseFilter_class \<Rightarrow> string \<Rightarrow> bool" where
  "reserved cls key \<longleftrightarrow>
     key \<in> set [ordering_param cls, search_param cls, ''page'', ''per_page'']"

text \<open>
  The body of the loop of \<^verbatim>\<open>filter\<close> for one key that is not skipped. Unpacking the
  split into two names raises \<^verbatim>\<open>ValueError\<close> unless it has exactly two parts, and the
  handler then takes the whole key with \<^verbatim>\<open>__eq__\<close>. The error raised for an unknown
  suffix is a \<^verbatim>\<open>RequestValidationError\<close>, which is not a \<^verbatim>\<open>ValueError\<close>, so it leaves the
  handler untouched.
\<close>

definition parse_key :: "'t BaseFilter_class \<Rightarrow> string \<Rightarrow> string \<Rightarrow> error + LookupInfo" where
  "parse_key cls key v =
     (case (case py_split ''__'' key of
              [fname, query_lookup] \<Rightarrow>
                (case map_of ORM_LOOKUP_MAPPING query_lookup of
                   None \<Rightarrow> Inl (RequestValidationError [UnknownLookup query_lookup])
                 | Some lk \<Rightarrow> Inr (fname, lk))
            | _ \<Rightarrow> Inr (key, ''__eq__'')) of
        Inl e \<Rightarrow> Inl e
      | Inr (fname, lk) \<Rightarrow>
          if fname \<notin> set (map fst (schema cls))
          then Inl (RequestValidationError [UnknownFilteringField fname])
          else Inr \<lparr>field_name = fname, lookup = lk, raw_value = v\<rparr>)"

fun collect_lookups ::
  "'t BaseFilter_class \<Rightarrow> (string \<times> string) list \<Rightarrow> LookupInfo list
     \<Rightarrow> error + LookupInfo list" where
  "collect_lookups cls [] lookups = Inr lookups"
| "collect_lookups cls ((key, v) # items) lookups =
     (if reserved cls key then collect_lookups cls items lookups
      else (case parse_key cls key v of
              Inl e \<Rightarrow> Inl e
            | Inr l \<Rightarrow> collect_lookups cls items (lookups @ [l])))"

subsection \<open>Validating the values\<close>

text \<open>
  The one-field \<^verbatim>\<open>ValidationModel\<close>. \<open>coerce\<close> is the validation library's conversion of
  a string to a declared type. A scalar that does not convert gives one line error at
  the field; a list gives one line error for every token that does not convert, at the
  field and the token's index.
\<close>

fun validate_items ::
  "('t \<Rightarrow> string \<Rightarrow> 'v option) \<Rightarrow> 't \<Rightarrow> nat \<Rightarrow> string list \<Rightarrow> nat list \<times> 'v list" where
  "validate_items coerce T i [] = ([], [])"
| "validate_items coerce T i (tok # toks) =
     (case validate_items coerce T (Suc i) toks of
        (bad, vals) \<Rightarrow>
          (case coerce T tok of
             None \<Rightarrow> (i # bad, vals)
           | Some x \<Rightarrow> (bad, x # vals)))"

definition ValidationModel_validate ::
  "('t \<Rightarrow> string \<Rightarrow> 'v option) \<Rightarrow> string \<Rightarrow> 't \<Rightarrow> string + string list
     \<Rightarrow> detail list + 'v pyval" where
  "ValidationModel_validate coerce fname T value_to_validate =
     (case value_to_validate of
        Inl s \<Rightarrow>
          (case coerce T s of
             None \<Rightarrow> Inl [LineError [LocField fname] CoercionFailure]
           | Some x \<Rightarrow> Inr (Scalar x))
      | Inr toks \<Rightarrow>
          (case validate_items coerce T 0 toks of
             ([], vals) \<Rightarrow> Inr (PyList vals)
           | (bad, vals) \<Rightarrow>
               Inl (map (\<lambda>i. LineError [LocField fname, LocIndex i] CoercionFailure) bad)))"

text \<open>
  The validator \<^verbatim>\<open>name_must_contain_space\<close> of \<^verbatim>\<open>BaseFilterSchema\<close>, run for one field of
  the validated object: \<open>ann\<close> is \<^verbatim>\<open>cls.model_fields[info.field_name].annotation\<close> and
  \<open>context\<close> the dict passed as validation context. Line errors of the inner model lose
  the first element of their location.
\<close>

definition strip_loc :: "detail \<Rightarrow> detail" where
  "strip_loc d = (case d of LineError loc k \<Rightarrow> LineError (tl loc) k | _ \<Rightarrow> d)"

definition name_must_contain_space ::
  "('t \<Rightarrow> string \<Rightarrow> 'v option) \<Rightarrow> 't option \<Rightarrow> (string \<times> string) list \<Rightarrow> string \<Rightarrow> string
     \<Rightarrow> detail list + 'v pyval" where
  "name_must_contain_space coerce ann context fname v =
     (case ann of
        None \<Rightarrow> Inl [LineError [] UnknownFieldType]
      | Some T \<Rightarrow>
          if context = [] then Inl [LineError [] ContextRequired]
          else
            (let lk = map_of context fname;
                 value_to_validate =
                   (if lk \<in> set [Some ''in_'', Some ''not_in'']
                    then Inr (py_split '','' v) else Inl v)
             in case ValidationModel_validate coerce fname T value_to_validate of
                  Inl es \<Rightarrow> Inl (map strip_loc es)
                | Inr x \<Rightarrow> Inr x))"

text \<open>
  \<^verbatim>\<open>schema.model_validate(obj, context)\<close>: the fields are visited in declaration order; a
  field absent from \<open>obj\<close> takes its default \<^verbatim>\<open>None\<close> unvalidated, a present one goes
  through the validator; the line errors of all fields are collected, each under its
  field's name, and validation fails when there is any.
\<close>

definition with_outer_loc :: "string \<Rightarrow> detail \<Rightarrow> detail" where
  "with_outer_loc fname d =
     (case d of LineError loc k \<Rightarrow> LineError (LocField fname # loc) k | _ \<Rightarrow> d)"

fun validate_fields ::
  "('t \<Rightarrow> string \<Rightarrow> 'v option) \<Rightarrow> (string \<times> 't FilterFieldInfo) list
     \<Rightarrow> (string \<times> string) list \<Rightarrow> (string \<times> string) list
     \<Rightarrow> detail list \<times> (string \<times> 'v pyval) list" where
  "validate_fields coerce [] obj context = ([], [])"
| "validate_fields coerce ((fname, info) # flds) obj context =
     (case validate_fields coerce flds obj context of
        (es, vals) \<Rightarrow>
          (case map_of obj fname of
             None \<Rightarrow> (es, (fname, PyNone) # vals)
           | Some v \<Rightarrow>
               (case name_must_contain_space coerce (annotation info) context fname v of
                  Inl es' \<Rightarrow> (map (with_outer_loc fname) es' @ es, vals)
                | Inr x \<Rightarrow> (es, (fname, x) # vals))))"

definition schema_model_validate ::
  "('t \<Rightarrow> string \<Rightarrow> 'v option) \<Rightarrow> (string \<times> 't FilterFieldInfo) list
     \<Rightarrow> (string \<times> string) list \<Rightarrow> (string \<times> string) list
     \<Rightarrow> detail list + (string \<times> 'v pyval) list" where
  "schema_model_validate coerce flds obj context =
     (case validate_fields coerce flds obj context of
        ([], vals) \<Rightarrow> Inr vals
      | (es, vals) \<Rightarrow> Inl es)"

subsection \<open>Building the criteria\<close>

text \<open>
  \<^verbatim>\<open>getattr(model_field, lookup)(value)\<close>: the comparison methods and \<^verbatim>\<open>regexp_match\<close> build
  an expression from any argument; \<^verbatim>\<open>in_\<close> and \<^verbatim>\<open>not_in\<close> take a list and raise on a scalar
  or \<^verbatim>\<open>None\<close>.
\<close>

definition column_method :: "string \<Rightarrow> string \<Rightarrow> 'v pyval \<Rightarrow> error + 'v criterion" where
  "column_method fname lk x =
     (if lk \<in> set [''in_'', ''not_in''] \<and> (case x of PyList vals \<Rightarrow> False | _ \<Rightarrow> True)
      then Inl (ArgumentError lk)
      else Inr (Criterion fname lk x))"

text \<open>
  The last loop of \<^verbatim>\<open>filter\<close>: one criterion per lookup, from the entity's column of that
  name, the lookup's column method and the validated attribute of that name.
\<close>

fun add_criteria ::
  "'t BaseFilter_class \<Rightarrow> (string \<times> 'v pyval) list \<Rightarrow> LookupInfo list \<Rightarrow> 'v Select
     \<Rightarrow> error + 'v Select" where
  "add_criteria cls validated_filter [] q = Inr q"
| "add_criteria cls validated_filter (l # ls) q =
     (if field_name l \<notin> set (orm_model cls) then Inl (AttributeError (field_name l))
      else (case map_of validated_filter (field_name l) of
              None \<Rightarrow> Inl (AttributeError (field_name l))
            | Some x \<Rightarrow>
                (case column_method (field_name l) (lookup l) x of
                   Inl e \<Rightarrow> Inl e
                 | Inr c \<Rightarrow>
                     add_criteria cls validated_filter ls
                       (q\<lparr>whereclause := whereclause q @ [c]\<rparr>))))"

definition filter_stage ::
  "'t BaseFilter_class \<Rightarrow> ('t \<Rightarrow> string \<Rightarrow> 'v option) \<Rightarrow> 'v BaseFilter
     \<Rightarrow> error + 'v BaseFilter" where
  "filter_stage cls coerce self =
     (case collect_lookups cls (query_params self) [] of
        Inl e \<Rightarrow> Inl e
      | Inr lookups \<Rightarrow>
          (case schema_model_validate coerce (schema cls)
                  (py_dict (map (\<lambda>l. (field_name l, raw_value l)) lookups))
                  (py_dict (map (\<lambda>l. (field_name l, lookup l)) lookups)) of
             Inl es \<Rightarrow> Inl (RequestValidationError es)
           | Inr validated_filter \<Rightarrow>
               (case add_criteria cls validated_filter lookups (query self) of
                  Inl e \<Rightarrow> Inl e
                | Inr q \<Rightarrow> Inr (self\<lparr>query := q\<rparr>))))"

section \<open>Search, order, offset, limit\<close>

text \<open>
  \<^verbatim>\<open>search\<close>: nothing happens without a search text. Otherwise the entity's \<^verbatim>\<open>id\<close> and then
  the columns of the searchable fields are read with \<^verbatim>\<open>getattr\<close>, the ranking subquery is
  joined and the query is ordered by \<^verbatim>\<open>desc(text('result'))\<close>.
\<close>

definition search :: "'t BaseFilter_class \<Rightarrow> 'v BaseFilter \<Rightarrow> error + 'v BaseFilter" where
  "search cls self =
     (case map_of (query_params self) (search_param cls) of
        None \<Rightarrow> Inr self
      | Some seqrch_query \<Rightarrow>
          if seqrch_query = [] then Inr self
          else
            (let search_fields = map fst (filter (\<lambda>(key, info). searchable info) (schema cls))
             in if ''id'' \<notin> set (orm_model cls) then Inl (AttributeError ''id'')
                else (case filter (\<lambda>f. f \<notin> set (orm_model cls)) search_fields of
                        f # _ \<Rightarrow> Inl (AttributeError f)
                      | [] \<Rightarrow>
                          Inr (self\<lparr>query := (query self)
                                 \<lparr>joins := joins (query self) @ [(search_fields, seqrch_query)],
                                  order_by_clauses :=
                                    order_by_clauses (query self) @ [TextDesc ''result'']\<rparr>\<rparr>))))"

text \<open>
  \<^verbatim>\<open>order\<close>: a missing or empty ordering value is replaced by the default, the first
  character is read (an empty default makes that raise), the sign is stripped, the field
  is looked up in the schema and its column on the entity.
\<close>

definition order :: "'t BaseFilter_class \<Rightarrow> 'v BaseFilter \<Rightarrow> error + 'v BaseFilter" where
  "order cls self =
     (let order_by =
            (case map_of (query_params self) (ordering_param cls) of
               None \<Rightarrow> default_ordering cls
             | Some s \<Rightarrow> if s = [] then default_ordering cls else s)
      in case order_by of
           [] \<Rightarrow> Inl IndexError
         | c # rest \<Rightarrow>
             (let (desc, fname) =
                    (if c = CHR ''-'' then (True, rest)
                     else if c = CHR ''+'' then (False, rest)
                     else (False, order_by))
              in case map_of (schema cls) fname of
                   None \<Rightarrow> Inl (RequestValidationError [UnknownOrderingField fname])
                 | Some order_field \<Rightarrow>
                     if \<not> orderable order_field
                     then Inl (RequestValidationError [OrderingNotPermitted fname])
                     else if fname \<notin> set (orm_model cls) then Inl (AttributeError fname)
                     else Inr (self\<lparr>query := (query self)
                            \<lparr>order_by_clauses := order_by_clauses (query self)
                               @ [if desc then ColumnDesc fname else ColumnAsc fname]\<rparr>\<rparr>)))"

text \<open>\<^verbatim>\<open>offset\<close>, \<^verbatim>\<open>limit\<close> and \<^verbatim>\<open>full\<close>, which chains the five stages.\<close>

definition offset :: "'v BaseFilter \<Rightarrow> 'v BaseFilter" where
  "offset self =
     self\<lparr>query := (query self)
       \<lparr>offset_clause := Some (page (paginator self) * per_page (paginator self))\<rparr>\<rparr>"

definition limit :: "'v BaseFilter \<Rightarrow> 'v BaseFilter" where
  "limit self = self\<lparr>query := (query self)\<lparr>limit_clause := Some (per_page (paginator self))\<rparr>\<rparr>"

definition full ::
  "'t BaseFilter_class \<Rightarrow> ('t \<Rightarrow> string \<Rightarrow> 'v option) \<Rightarrow> 'v BaseFilter
     \<Rightarrow> error + 'v BaseFilter" where
  "full cls coerce self =
     (case filter_stage cls coerce self of
        Inl e \<Rightarrow> Inl e
      | Inr s1 \<Rightarrow>
          (case search cls s1 of
             Inl e \<Rightarrow> Inl e
           | Inr s2 \<Rightarrow>
               (case order cls s2 of
                  Inl e \<Rightarrow> Inl e
                | Inr s3 \<Rightarrow> Inr (limit (offset s3)))))"

section \<open>A sample schema\<close>

text \<open>
  Declared types, values and a conversion for the examples below: integers written as a
  decimal numeral with an optional minus sign, and strings taken as they are. The schema
  is \<^verbatim>\<open>Person\<close> with \<^verbatim>\<open>name: str\<close> (orderable, searchable) and \<^verbatim>\<open>age: int\<close> (orderable, not
  searchable), over an entity with the columns \<^verbatim>\<open>id\<close>, \<^verbatim>\<open>name\<close> and \<^verbatim>\<open>age\<close>.
\<close>

datatype ftype = TInt | TStr

datatype fvalue = VInt int | VStr string

fun digits_value :: "nat \<Rightarrow> string \<Rightarrow> nat option" where
  "digits_value acc [] = Some acc"
| "digits_value acc (c # cs) =
     (if c \<in> set ''0123456789''
      then digits_value (10 * acc + (of_char c - 48)) cs
      else None)"

definition decimal_int :: "string \<Rightarrow> int option" where
  "decimal_int s =
     (case s of
        [] \<Rightarrow> None
      | c # cs \<Rightarrow>
          if c = CHR ''-''
          then (if cs = [] then None else map_option (\<lambda>n. - int n) (digits_value 0 cs))
          else map_option int (digits_value 0 s))"

definition sample_coerce :: "ftype \<Rightarrow> string \<Rightarrow> fvalue option" where
  "sample_coerce T s = (case T of TInt \<Rightarrow> map_option VInt (decimal_int s) | TStr \<Rightarrow> Some (VStr s))"

definition Person :: "ftype BaseFilter_class" where
  "Person =
     \<lparr>orm_model = [''id'', ''name'', ''age''],
      schema =
        [(''name'', \<lparr>annotation = Some TStr, orderable = True, searchable = True\<rparr>),
         (''age'', \<lparr>annotation = Some TInt, orderable = True, searchable = False\<rparr>)],
      ordering_param = ''order_by'',
      search_param = ''search'',
      default_ordering = ''id''\<rparr>"

text \<open>
  A second schema, \<^verbatim>\<open>Account\<close>, declares \<^verbatim>\<open>id\<close> and has a field that may not be ordered by.
\<close>

definition Account :: "ftype BaseFilter_class" where
  "Account =
     \<lparr>orm_model = [''id'', ''name'', ''age''],
      schema =
        [(''id'', \<lparr>annotation = Some TInt, orderable = True, searchable = False\<rparr>),
         (''name'', \<lparr>annotation = Some TStr, orderable = False, searchable = True\<rparr>),
         (''age'', \<lparr>annotation = Some TInt, orderable = True, searchable = False\<rparr>)],
      ordering_param = ''order_by'',
      search_param = ''search'',
      default_ordering = ''id''\<rparr>"

definition new_filter :: "(string \<times> string) list \<Rightarrow> fvalue BaseFilter" where
  "new_filter req = \<lparr>request = req, query = select, paginator = \<lparr>page = 0, per_page = 10\<rparr>\<rparr>"

section \<open>The parser fails at the first key it rejects\<close>

lemma collect_lookups_first_error:
  assumes "\<forall>(k, w) \<in> set pre. reserved cls k \<or> (\<exists>l. parse_key cls k w = Inr l)"
    and "\<not> reserved cls key" and "parse_key cls key v = Inl e"
  shows "collect_lookups cls (pre @ (key, v) # post) acc = Inl e"
  using assms
proof (induction pre arbitrary: acc)
  case Nil
  then show ?case by simp
next
  case (Cons p pre)
  obtain k w where p: "p = (k, w)" by (cases p)
  from Cons.prems(1) p have hd: "reserved cls k \<or> (\<exists>l. parse_key cls k w = Inr l)"
    and tl: "\<forall>(k, w) \<in> set pre. reserved cls k \<or> (\<exists>l. parse_key cls k w = Inr l)"
    by auto
  from hd show ?case
  proof
    assume "reserved cls k"
    then show ?thesis using Cons.IH [OF tl Cons.prems(2,3)] p by simp
  next
    assume "\<exists>l. parse_key cls k w = Inr l"
    then obtain l where "parse_key cls k w = Inr l" ..
    then show ?thesis using Cons.IH [OF tl Cons.prems(2,3)] p by simp
  qed
qed

lemma filter_stage_first_error:
  assumes "query_params self = pre @ (key, v) # post"
    and "\<forall>(k, w) \<in> set pre. reserved cls k \<or> (\<exists>l. parse_key cls k w = Inr l)"
    and "\<not> reserved cls key" and "parse_key cls key v = Inl e"
  shows "filter_stage cls coerce self = Inl e"
  using collect_lookups_first_error [OF assms(2-4), of post "[]"] assms(1)
  by (simp add: filter_stage_def)

text \<open>
  C3. A key that splits on \<^verbatim>\<open>__\<close> into exactly two parts whose second part is not in the
  operator table is rejected with \<^verbatim>\<open>Unknown lookup\<close> naming that part, whatever the schema
  declares: the schema is not consulted. When the key is not reserved and every key
  before it in the request is skipped or accepted, this is the error of the filter stage.
\<close>

theorem unknown_operator_reported_first:
  assumes "py_split ''__'' key = [f, suffix]"
    and "map_of ORM_LOOKUP_MAPPING suffix = None"
  shows "parse_key cls key v = Inl (RequestValidationError [UnknownLookup suffix])
    \<and> (\<not> reserved cls key \<longrightarrow> query_params self = pre @ (key, v) # post \<longrightarrow>
        (\<forall>(k, w) \<in> set pre. reserved cls k \<or> (\<exists>l. parse_key cls k w = Inr l)) \<longrightarrow>
        filter_stage cls coerce self = Inl (RequestValidationError [UnknownLookup suffix]))"
proof -
  have pk: "parse_key cls key v = Inl (RequestValidationError [UnknownLookup suffix])"
    using assms by (simp add: parse_key_def)
  show ?thesis
    using pk filter_stage_first_error [where e = "RequestValidationError [UnknownLookup suffix]"]
    by blast
qed

theorem unknown_operator_reported_first_witness:
  "filter_stage Person sample_coerce
     (new_filter [(''page'', ''3''), (''name'', ''Ann''), (''age__bogus'', ''1''), (''zzz'', ''1'')])
   = Inl (RequestValidationError [UnknownLookup ''bogus''])
   \<and> ''age'' \<in> set (map fst (schema Person))"
proof -
  have a: "py_split ''__'' ''age__bogus'' = [''age'', ''bogus'']" by simp
  have b: "map_of ORM_LOOKUP_MAPPING ''bogus'' = None" by (simp add: ORM_LOOKUP_MAPPING_def)
  have c: "\<not> reserved Person ''age__bogus''" by (simp add: reserved_def Person_def)
  have d: "query_params (new_filter
             [(''page'', ''3''), (''name'', ''Ann''), (''age__bogus'', ''1''), (''zzz'', ''1'')])
      = [(''page'', ''3''), (''name'', ''Ann'')] @ (''age__bogus'', ''1'') # [(''zzz'', ''1'')]"
    by (simp add: query_params_def new_filter_def py_dict_def)
  have e: "\<forall>(k, w) \<in> set [(''page'', ''3''), (''name'', ''Ann'')].
             reserved Person k \<or> (\<exists>l. parse_key Person k w = Inr l)"
    by (simp add: reserved_def Person_def parse_key_def)
  from unknown_operator_reported_first [OF a b, of Person "''1''"
      "new_filter [(''page'', ''3''), (''name'', ''Ann''), (''age__bogus'', ''1''), (''zzz'', ''1'')]"
      "[(''page'', ''3''), (''name'', ''Ann'')]" "[(''zzz'', ''1'')]" sample_coerce] c d e
  show ?thesis by (simp add: Person_def)
qed

lemma length_gt2_cases:
  assumes "2 < length xs"
  obtains a b c rest where "xs = a # b # c # rest"
proof (cases xs)
  case Nil
  with assms show ?thesis by simp
next
  case c1: (Cons a ys)
  show ?thesis
  proof (cases ys)
    case Nil
    with assms c1 show ?thesis by simp
  next
    case c2: (Cons b zs)
    show ?thesis
    proof (cases zs)
      case Nil
      with assms c1 c2 show ?thesis by simp
    next
      case (Cons c rest)
      with c1 c2 that show ?thesis by simp
    qed
  qed
qed

text \<open>
  C9. A key whose split on \<^verbatim>\<open>__\<close> has more than two parts is never an operator error:
  the whole key is the field name and the lookup is \<^verbatim>\<open>__eq__\<close>. It is accepted when the
  schema declares a field of exactly that name, and rejected with \<^verbatim>\<open>Unknown filtering
  field\<close> naming the whole key otherwise; that is then the error of the filter stage when
  the key is not reserved and every key before it is skipped or accepted.
\<close>

theorem long_split_is_whole_key:
  assumes "2 < length (py_split ''__'' key)"
  shows "parse_key cls key v =
      (if key \<in> set (map fst (schema cls))
       then Inr \<lparr>field_name = key, lookup = ''__eq__'', raw_value = v\<rparr>
       else Inl (RequestValidationError [UnknownFilteringField key]))
    \<and> (key \<notin> set (map fst (schema cls)) \<longrightarrow> \<not> reserved cls key \<longrightarrow>
        query_params self = pre @ (key, v) # post \<longrightarrow>
        (\<forall>(k, w) \<in> set pre. reserved cls k \<or> (\<exists>l. parse_key cls k w = Inr l)) \<longrightarrow>
        filter_stage cls coerce self = Inl (RequestValidationError [UnknownFilteringField key]))"
proof (intro conjI impI)
  obtain a b c rest where sp: "py_split ''__'' key = a # b # c # rest"
    using assms by (rule length_gt2_cases)
  show pk: "parse_key cls key v =
      (if key \<in> set (map fst (schema cls))
       then Inr \<lparr>field_name = key, lookup = ''__eq__'', raw_value = v\<rparr>
       else Inl (RequestValidationError [UnknownFilteringField key]))"
    using sp by (simp add: parse_key_def)
  assume nf: "key \<notin> set (map fst (schema cls))" and nr: "\<not> reserved cls key"
    and qp: "query_params self = pre @ (key, v) # post"
    and ok: "\<forall>(k, w) \<in> set pre. reserved cls k \<or> (\<exists>l. parse_key cls k w = Inr l)"
  from pk nf have "parse_key cls key v = Inl (RequestValidationError [UnknownFilteringField key])"
    by simp
  then show "filter_stage cls coerce self
      = Inl (RequestValidationError [UnknownFilteringField key])"
    by (rule filter_stage_first_error [OF qp ok nr])
qed

theorem long_split_is_whole_key_witness:
  "parse_key Person ''a__b__c'' ''1'' = Inl (RequestValidationError [UnknownFilteringField ''a__b__c''])
   \<and> filter_stage Person sample_coerce (new_filter [(''age'', ''3''), (''a__b__c'', ''1'')])
       = Inl (RequestValidationError [UnknownFilteringField ''a__b__c''])
   \<and> parse_key (Person\<lparr>schema := (''a__b__c'', \<lparr>annotation = Some TInt, orderable = True,
                        searchable = True\<rparr>) # schema Person\<rparr>) ''a__b__c'' ''1''
       = Inr \<lparr>field_name = ''a__b__c'', lookup = ''__eq__'', raw_value = ''1''\<rparr>"
proof -
  have a: "2 < length (py_split ''__'' ''a__b__c'')" by simp
  have b: "''a__b__c'' \<notin> set (map fst (schema Person))" by (simp add: Person_def)
  have c: "\<not> reserved Person ''a__b__c''" by (simp add: reserved_def Person_def)
  have d: "query_params (new_filter [(''age'', ''3''), (''a__b__c'', ''1'')])
      = [(''age'', ''3'')] @ (''a__b__c'', ''1'') # []"
    by (simp add: query_params_def new_filter_def py_dict_def)
  have e: "\<forall>(k, w) \<in> set [(''age'', ''3'')].
             reserved Person k \<or> (\<exists>l. parse_key Person k w = Inr l)"
    by (simp add: reserved_def Person_def parse_key_def)
  note T = long_split_is_whole_key [OF a, of Person "''1''"
      "new_filter [(''age'', ''3''), (''a__b__c'', ''1'')]" "[(''age'', ''3'')]" "[]" sample_coerce]
  have one: "parse_key Person ''a__b__c'' ''1''
        = Inl (RequestValidationError [UnknownFilteringField ''a__b__c''])
      \<and> filter_stage Person sample_coerce (new_filter [(''age'', ''3''), (''a__b__c'', ''1'')])
        = Inl (RequestValidationError [UnknownFilteringField ''a__b__c''])"
    using T [THEN conjunct1] T [THEN conjunct2, THEN mp, OF b, THEN mp, OF c, THEN mp, OF d, THEN mp, OF e] b by simp
  from long_split_is_whole_key [OF a, of "Person\<lparr>schema := (''a__b__c'',
      \<lparr>annotation = Some TInt, orderable = True, searchable = True\<rparr>) # schema Person\<rparr>" "''1''"]
  have two: "parse_key (Person\<lparr>schema := (''a__b__c'', \<lparr>annotation = Some TInt,
        orderable = True, searchable = True\<rparr>) # schema Person\<rparr>) ''a__b__c'' ''1''
       = Inr \<lparr>field_name = ''a__b__c'', lookup = ''__eq__'', raw_value = ''1''\<rparr>"
    by simp
  from one two show ?thesis by simp
qed

text \<open>
  C1, as the code has it. For a key that splits into a field and a suffix of the operator
  table \<^verbatim>\<open>neq, gt, gte, lt, lte, in, not_in, regexp\<close>, where the schema does not declare the
  field, the parser fails with \<^verbatim>\<open>Unknown filtering field\<close> naming the field, and so does
  the filter stage when the key is not reserved and every key before it is skipped or
  accepted. The suffix \<^verbatim>\<open>eq\<close> is not in the table: such a key fails with \<^verbatim>\<open>Unknown lookup
  'eq'\<close>, whatever the field.
\<close>

theorem declared_suffix_on_unknown_field:
  assumes "py_split ''__'' key = [f, suffix]"
  shows "(suffix \<in> set [''neq'', ''gt'', ''gte'', ''lt'', ''lte'', ''in'', ''not_in'', ''regexp'']
            \<longrightarrow> f \<notin> set (map fst (schema cls)) \<longrightarrow>
          parse_key cls key v = Inl (RequestValidationError [UnknownFilteringField f])
          \<and> (\<not> reserved cls key \<longrightarrow> query_params self = pre @ (key, v) # post \<longrightarrow>
               (\<forall>(k, w) \<in> set pre. reserved cls k \<or> (\<exists>l. parse_key cls k w = Inr l)) \<longrightarrow>
               filter_stage cls coerce self
                 = Inl (RequestValidationError [UnknownFilteringField f])))
    \<and> (suffix = ''eq'' \<longrightarrow>
          parse_key cls key v = Inl (RequestValidationError [UnknownLookup ''eq'']))"
proof (intro conjI impI)
  assume "suffix = ''eq''"
  then show "parse_key cls key v = Inl (RequestValidationError [UnknownLookup ''eq''])"
    using assms by (simp add: parse_key_def ORM_LOOKUP_MAPPING_def)
next
  assume op: "suffix \<in> set [''neq'', ''gt'', ''gte'', ''lt'', ''lte'', ''in'', ''not_in'', ''regexp'']"
    and nf: "f \<notin> set (map fst (schema cls))"
  from op obtain lk where "map_of ORM_LOOKUP_MAPPING suffix = Some lk"
    by (auto simp: ORM_LOOKUP_MAPPING_def)
  then show pk: "parse_key cls key v = Inl (RequestValidationError [UnknownFilteringField f])"
    using assms nf by (simp add: parse_key_def)
  assume nr: "\<not> reserved cls key"
    and qp: "query_params self = pre @ (key, v) # post"
    and ok: "\<forall>(k, w) \<in> set pre. reserved cls k \<or> (\<exists>l. parse_key cls k w = Inr l)"
  show "filter_stage cls coerce self = Inl (RequestValidationError [UnknownFilteringField f])"
    by (rule filter_stage_first_error [OF qp ok nr pk])
qed

theorem declared_suffix_on_unknown_field_witness:
  "filter_stage Person sample_coerce (new_filter [(''age'', ''3''), (''unknown_field__gt'', ''1'')])
     = Inl (RequestValidationError [UnknownFilteringField ''unknown_field''])
   \<and> parse_key Person ''unknown_field__eq'' ''1''
     = Inl (RequestValidationError [UnknownLookup ''eq''])"
proof -
  have a: "py_split ''__'' ''unknown_field__gt'' = [''unknown_field'', ''gt'']" by simp
  have a': "py_split ''__'' ''unknown_field__eq'' = [''unknown_field'', ''eq'']" by simp
  have b: "''unknown_field'' \<notin> set (map fst (schema Person))" by (simp add: Person_def)
  have c: "\<not> reserved Person ''unknown_field__gt''" by (simp add: reserved_def Person_def)
  have d: "query_params (new_filter [(''age'', ''3''), (''unknown_field__gt'', ''1'')])
      = [(''age'', ''3'')] @ (''unknown_field__gt'', ''1'') # []"
    by (simp add: query_params_def new_filter_def py_dict_def)
  have e: "\<forall>(k, w) \<in> set [(''age'', ''3'')].
             reserved Person k \<or> (\<exists>l. parse_key Person k w = Inr l)"
    by (simp add: reserved_def Person_def parse_key_def)
  have o: "''gt'' \<in> set [''neq'', ''gt'', ''gte'', ''lt'', ''lte'', ''in'', ''not_in'', ''regexp'']"
    by simp
  note T = declared_suffix_on_unknown_field [OF a, of Person "''1''"
      "new_filter [(''age'', ''3''), (''unknown_field__gt'', ''1'')]" "[(''age'', ''3'')]" "[]"
      sample_coerce]
  have one: "filter_stage Person sample_coerce
        (new_filter [(''age'', ''3''), (''unknown_field__gt'', ''1'')])
      = Inl (RequestValidationError [UnknownFilteringField ''unknown_field''])"
    by (rule T [THEN conjunct1, THEN mp, OF o, THEN mp, OF b, THEN conjunct2, THEN mp, OF c,
        THEN mp, OF d, THEN mp, OF e])
  from declared_suffix_on_unknown_field [OF a', of Person "''1''"]
  have two: "parse_key Person ''unknown_field__eq'' ''1''
      = Inl (RequestValidationError [UnknownLookup ''eq''])"
    by simp
  from one two show ?thesis by simp
qed

text \<open>
  The request \<^verbatim>\<open>unknown_field__eq=1\<close> is answered with \<^verbatim>\<open>Unknown lookup 'eq'\<close>, not with
  the unknown field.
\<close>

theorem eq_suffix_counterexample:
  "filter_stage Person sample_coerce (new_filter [(''unknown_field__eq'', ''1'')])
     = Inl (RequestValidationError [UnknownLookup ''eq''])
   \<and> filter_stage Person sample_coerce (new_filter [(''unknown_field__eq'', ''1'')])
     \<noteq> Inl (RequestValidationError [UnknownFilteringField ''unknown_field''])
   \<and> ''unknown_field'' \<notin> set (map fst (schema Person))"
  by (simp add: filter_stage_def column_method_def query_params_def new_filter_def py_dict_def reserved_def
      parse_key_def ORM_LOOKUP_MAPPING_def Person_def)


section \<open>The order stage\<close>

lemma order_Cons:
  assumes "(case map_of (query_params self) (ordering_param cls) of
              None \<Rightarrow> default_ordering cls
            | Some s \<Rightarrow> if s = [] then default_ordering cls else s) = ch # rest"
  shows "order cls self =
      (case map_of (schema cls) (if ch = CHR ''-'' \<or> ch = CHR ''+'' then rest else ch # rest) of
         None \<Rightarrow> Inl (RequestValidationError [UnknownOrderingField
                   (if ch = CHR ''-'' \<or> ch = CHR ''+'' then rest else ch # rest)])
       | Some order_field \<Rightarrow>
           if \<not> orderable order_field
           then Inl (RequestValidationError [OrderingNotPermitted
                   (if ch = CHR ''-'' \<or> ch = CHR ''+'' then rest else ch # rest)])
           else if (if ch = CHR ''-'' \<or> ch = CHR ''+'' then rest else ch # rest)
                     \<notin> set (orm_model cls)
           then Inl (AttributeError (if ch = CHR ''-'' \<or> ch = CHR ''+'' then rest else ch # rest))
           else Inr (self\<lparr>query := (query self)
                  \<lparr>order_by_clauses := order_by_clauses (query self) @
                     [if ch = CHR ''-'' then ColumnDesc rest
                      else ColumnAsc (if ch = CHR ''+'' then rest else ch # rest)]\<rparr>\<rparr>))"
  using assms by (simp add: order_def Let_def)

text \<open>
  C6, as the code has it. Let \<open>v\<close> be the value of the ordering parameter when it is present
  and not empty, and the default ordering otherwise; let \<open>v\<close> be non-empty. A leading \<^verbatim>\<open>-\<close>
  is stripped and selects descending order, a leading \<^verbatim>\<open>+\<close> is stripped and selects
  ascending order, no sign selects ascending order. A field name the schema does not
  declare gives \<^verbatim>\<open>Unknown ordering field\<close>, a declared field that is not orderable gives
  \<^verbatim>\<open>Ordering by ... is not permitted\<close>, a declared orderable field that is a column of
  the entity appends the order clause, and the stage succeeds only for a declared,
  orderable field.
\<close>

theorem order_stage_sign_and_field:
  assumes v: "v = (case map_of (query_params self) (ordering_param cls) of
                  None \<Rightarrow> default_ordering cls
                | Some s \<Rightarrow> if s = [] then default_ordering cls else s)"
    and ne: "v \<noteq> []"
    and f: "fname = (if hd v = CHR ''-'' \<or> hd v = CHR ''+'' then tl v else v)"
    and c: "clause = (if hd v = CHR ''-'' then ColumnDesc fname else ColumnAsc fname)"
  shows "(map_of (schema cls) fname = None \<longrightarrow>
            order cls self = Inl (RequestValidationError [UnknownOrderingField fname]))
    \<and> (\<forall>fi. map_of (schema cls) fname = Some fi \<longrightarrow> \<not> orderable fi \<longrightarrow>
            order cls self = Inl (RequestValidationError [OrderingNotPermitted fname]))
    \<and> (\<forall>fi. map_of (schema cls) fname = Some fi \<longrightarrow> orderable fi \<longrightarrow>
            fname \<in> set (orm_model cls) \<longrightarrow>
            order cls self = Inr (self\<lparr>query := (query self)
              \<lparr>order_by_clauses := order_by_clauses (query self) @ [clause]\<rparr>\<rparr>))
    \<and> (\<forall>self'. order cls self = Inr self' \<longrightarrow>
            (\<exists>fi. map_of (schema cls) fname = Some fi \<and> orderable fi))"
proof -
  from ne obtain ch rest where vc: "v = ch # rest" by (cases v) auto
  have fn: "fname = (if ch = CHR ''-'' \<or> ch = CHR ''+'' then rest else ch # rest)"
    using f vc by simp
  have cl: "clause = (if ch = CHR ''-'' then ColumnDesc rest
                      else ColumnAsc (if ch = CHR ''+'' then rest else ch # rest))"
    using c fn vc by simp
  have unfold: "order cls self =
      (case map_of (schema cls) fname of
         None \<Rightarrow> Inl (RequestValidationError [UnknownOrderingField fname])
       | Some order_field \<Rightarrow>
           if \<not> orderable order_field
           then Inl (RequestValidationError [OrderingNotPermitted fname])
           else if fname \<notin> set (orm_model cls) then Inl (AttributeError fname)
           else Inr (self\<lparr>query := (query self)
                  \<lparr>order_by_clauses := order_by_clauses (query self) @ [clause]\<rparr>\<rparr>))"
    unfolding fn cl by (rule order_Cons) (simp add: v [symmetric] vc)
  show ?thesis
    unfolding unfold by (auto split: option.splits if_splits)
qed

theorem order_stage_sign_and_field_witness:
  "order Person (new_filter [(''order_by'', ''-age'')])
     = Inr ((new_filter [(''order_by'', ''-age'')])\<lparr>query := select
              \<lparr>order_by_clauses := [ColumnDesc ''age'']\<rparr>\<rparr>)
   \<and> order Account (new_filter [(''order_by'', ''name'')])
     = Inl (RequestValidationError [OrderingNotPermitted ''name''])"
proof -
  have v1: "''-age'' = (case map_of (query_params (new_filter [(''order_by'', ''-age'')]))
                          (ordering_param Person) of
                  None \<Rightarrow> default_ordering Person
                | Some s \<Rightarrow> if s = [] then default_ordering Person else s)"
    by (simp add: query_params_def new_filter_def py_dict_def Person_def)
  have n1: "''-age'' \<noteq> []" by simp
  have f1: "''age'' = (if hd ''-age'' = CHR ''-'' \<or> hd ''-age'' = CHR ''+''
                       then tl ''-age'' else ''-age'')" by simp
  have c1: "ColumnDesc ''age'' = (if hd ''-age'' = CHR ''-'' then ColumnDesc ''age''
                                  else ColumnAsc ''age'')" by simp
  have m1: "map_of (schema Person) ''age''
      = Some \<lparr>annotation = Some TInt, orderable = True, searchable = False\<rparr>"
    by (simp add: Person_def)
  have o1: "orderable \<lparr>annotation = Some TInt, orderable = True, searchable = False\<rparr>" by simp
  have a1: "''age'' \<in> set (orm_model Person)" by (simp add: Person_def)
  note T1 = order_stage_sign_and_field [OF v1 n1 f1 c1]
  have one: "order Person (new_filter [(''order_by'', ''-age'')])
     = Inr ((new_filter [(''order_by'', ''-age'')])\<lparr>query := select
              \<lparr>order_by_clauses := [ColumnDesc ''age'']\<rparr>\<rparr>)"
    using T1 [THEN conjunct2, THEN conjunct2, THEN conjunct1, THEN spec, THEN mp, OF m1,
        THEN mp, OF o1, THEN mp, OF a1]
    by (simp add: new_filter_def select_def)
  have v2: "''name'' = (case map_of (query_params (new_filter [(''order_by'', ''name'')]))
                          (ordering_param Account) of
                  None \<Rightarrow> default_ordering Account
                | Some s \<Rightarrow> if s = [] then default_ordering Account else s)"
    by (simp add: query_params_def new_filter_def py_dict_def Account_def)
  have n2: "''name'' \<noteq> []" by simp
  have f2: "''name'' = (if hd ''name'' = CHR ''-'' \<or> hd ''name'' = CHR ''+''
                       then tl ''name'' else ''name'')" by simp
  have c2: "ColumnAsc ''name'' = (if hd ''name'' = CHR ''-'' then ColumnDesc ''name''
                                  else ColumnAsc ''name'')" by simp
  have m2: "map_of (schema Account) ''name''
      = Some \<lparr>annotation = Some TStr, orderable = False, searchable = True\<rparr>"
    by (simp add: Account_def)
  have o2: "\<not> orderable \<lparr>annotation = Some TStr, orderable = False, searchable = True\<rparr>"
    by simp
  note T2 = order_stage_sign_and_field [OF v2 n2 f2 c2]
  have two: "order Account (new_filter [(''order_by'', ''name'')])
     = Inl (RequestValidationError [OrderingNotPermitted ''name''])"
    by (rule T2 [THEN conjunct2, THEN conjunct1, THEN spec, THEN mp, OF m2, THEN mp, OF o2])
  from one two show ?thesis by simp
qed

text \<open>
  An empty ordering value is not read as a field name without sign: the default is taken,
  and the stage succeeds although the schema declares no field of the empty name.
\<close>

theorem empty_ordering_value_counterexample:
  "order Account (new_filter [(''order_by'', [])])
     = Inr ((new_filter [(''order_by'', [])])\<lparr>query := select
              \<lparr>order_by_clauses := [ColumnAsc ''id'']\<rparr>\<rparr>)
   \<and> map_of (schema Account) [] = None"
  by (simp add: order_def query_params_def new_filter_def py_dict_def Account_def select_def)

text \<open>
  C10, as the code has it. When the request gives no ordering value, or an empty one, the
  default ordering (which is not empty) goes through the same parsing as an explicit one:
  its sign is stripped, and the remaining field name must be a declared orderable field.
  When it is not, the order stage fails with \<^verbatim>\<open>Unknown ordering field\<close> (not declared) or
  \<^verbatim>\<open>Ordering by ... is not permitted\<close> (declared, not orderable).
\<close>

theorem default_ordering_must_resolve:
  assumes absent: "map_of (query_params self) (ordering_param cls) = None
        \<or> map_of (query_params self) (ordering_param cls) = Some []"
    and ne: "default_ordering cls \<noteq> []"
    and f: "fname = (if hd (default_ordering cls) = CHR ''-'' \<or> hd (default_ordering cls) = CHR ''+''
                    then tl (default_ordering cls) else default_ordering cls)"
    and no: "\<not> (\<exists>fi. map_of (schema cls) fname = Some fi \<and> orderable fi)"
  shows "order cls self =
      (if map_of (schema cls) fname = None
       then Inl (RequestValidationError [UnknownOrderingField fname])
       else Inl (RequestValidationError [OrderingNotPermitted fname]))"
proof -
  from ne obtain ch rest where d: "default_ordering cls = ch # rest"
    by (cases "default_ordering cls") auto
  have fn: "fname = (if ch = CHR ''-'' \<or> ch = CHR ''+'' then rest else ch # rest)"
    using f d by simp
  have eff: "(case map_of (query_params self) (ordering_param cls) of
              None \<Rightarrow> default_ordering cls
            | Some s \<Rightarrow> if s = [] then default_ordering cls else s) = ch # rest"
    using absent d by auto
  show ?thesis
    using no unfolding order_Cons [OF eff] fn [symmetric]
    by (auto split: option.splits)
qed

theorem default_ordering_must_resolve_witness:
  "order Person (new_filter [(''age__gt'', ''3'')])
     = Inl (RequestValidationError [UnknownOrderingField ''id''])"
proof -
  have a: "map_of (query_params (new_filter [(''age__gt'', ''3'')])) (ordering_param Person) = None
        \<or> map_of (query_params (new_filter [(''age__gt'', ''3'')])) (ordering_param Person) = Some []"
    by (simp add: query_params_def new_filter_def py_dict_def Person_def)
  have n: "default_ordering Person \<noteq> []" by (simp add: Person_def)
  have f: "''id'' = (if hd (default_ordering Person) = CHR ''-''
                        \<or> hd (default_ordering Person) = CHR ''+''
                    then tl (default_ordering Person) else default_ordering Person)"
    by (simp add: Person_def)
  have m: "map_of (schema Person) ''id'' = None" by (simp add: Person_def)
  then have no: "\<not> (\<exists>fi. map_of (schema Person) ''id'' = Some fi \<and> orderable fi)" by simp
  from default_ordering_must_resolve [OF a n f no] m show ?thesis by simp
qed

text \<open>
  A default ordering with a sign: the schema declares no field named \<^verbatim>\<open>-age\<close>, and a
  request without ordering parameter is ordered by \<^verbatim>\<open>age\<close>, descending.
\<close>

theorem signed_default_ordering_counterexample:
  "order (Person\<lparr>default_ordering := ''-age''\<rparr>) (new_filter [])
     = Inr ((new_filter [])\<lparr>query := select\<lparr>order_by_clauses := [ColumnDesc ''age'']\<rparr>\<rparr>)
   \<and> map_of (schema (Person\<lparr>default_ordering := ''-age''\<rparr>)) ''-age'' = None"
  by (simp add: order_def query_params_def new_filter_def py_dict_def Person_def select_def)

section \<open>Construction and the paginator\<close>

lemma int_field_cases:
  "int_field parse_int name dflt ge le obj = Inr n \<longleftrightarrow>
     (case map_of obj name of
        None \<Rightarrow> n = dflt
      | Some s \<Rightarrow> parse_int s = Some n \<and> ge \<le> n \<and> (case le of None \<Rightarrow> True | Some hi \<Rightarrow> n \<le> hi))"
  by (auto simp: int_field_def split: option.splits)

lemma init_Inr_iff:
  "init parse_int req = Inr self \<longleftrightarrow>
     (\<exists>p pp. int_field parse_int ''page'' 0 0 None (py_dict req) = Inr p
        \<and> int_field parse_int ''per_page'' 10 1 (Some 100) (py_dict req) = Inr pp
        \<and> self = \<lparr>request = req, query = select, paginator = \<lparr>page = p, per_page = pp\<rparr>\<rparr>)"
  by (auto simp: init_def BasePaginator_model_validate_def split: sum.splits)

lemma init_Inl_page:
  assumes "int_field parse_int ''page'' 0 0 None (py_dict req) = Inl [d]"
  shows "\<exists>es. (init parse_int req :: error + 'v BaseFilter) = Inl (RequestValidationError es)
           \<and> d \<in> set es"
  using assms by (auto simp: init_def BasePaginator_model_validate_def split: sum.splits)

lemma init_Inl_per_page:
  assumes "int_field parse_int ''per_page'' 10 1 (Some 100) (py_dict req) = Inl [d]"
  shows "\<exists>es. (init parse_int req :: error + 'v BaseFilter) = Inl (RequestValidationError es)
           \<and> d \<in> set es"
  using assms by (auto simp: init_def BasePaginator_model_validate_def split: sum.splits)

lemma filter_stage_keeps:
  assumes "filter_stage cls coerce self = Inr s"
  shows "paginator s = paginator self \<and> request s = request self"
  using assms by (auto simp: filter_stage_def split: sum.splits)

lemma search_keeps:
  assumes "search cls self = Inr s"
  shows "paginator s = paginator self \<and> request s = request self"
  using assms by (auto simp: search_def Let_def split: option.splits if_splits list.splits)

lemma order_keeps:
  assumes "order cls self = Inr s"
  shows "paginator s = paginator self \<and> request s = request self"
  using assms
  by (auto simp: order_def Let_def split: option.splits if_splits list.splits prod.splits)

lemma offset_limit_keep:
  "paginator (offset self) = paginator self" "request (offset self) = request self"
  "paginator (limit self) = paginator self" "request (limit self) = request self"
  by (simp_all add: offset_def limit_def)

lemma full_keeps:
  assumes "full cls coerce self = Inr s"
  shows "paginator s = paginator self \<and> request s = request self"
  using assms filter_stage_keeps search_keeps order_keeps
  by (fastforce simp: full_def offset_limit_keep split: sum.splits)

text \<open>
  C7. Construction reads the values of \<^verbatim>\<open>page\<close> and \<^verbatim>\<open>per_page\<close> (the last one given, when a
  key is repeated) and nothing else of the request. It succeeds exactly when \<^verbatim>\<open>page\<close>, if
  given, is an integer at least 0 and \<^verbatim>\<open>per_page\<close>, if given, an integer from 1 to 100; the
  paginator then holds these values, 0 and 10 standing for an absent key. A \<^verbatim>\<open>page\<close> below
  0 or a \<^verbatim>\<open>per_page\<close> below 1 or above 100 fails construction with a validation error that
  names the key and the bound, whatever else the request holds. No stage changes the
  paginator afterwards.
\<close>

theorem pagination_validated_at_construction:
  "((\<exists>self. (init parse_int req :: error + 'v BaseFilter) = Inr self) \<longleftrightarrow>
       (case map_of (py_dict req) ''page'' of
          None \<Rightarrow> True | Some s \<Rightarrow> (\<exists>n. parse_int s = Some n \<and> 0 \<le> n))
     \<and> (case map_of (py_dict req) ''per_page'' of
          None \<Rightarrow> True | Some s \<Rightarrow> (\<exists>n. parse_int s = Some n \<and> 1 \<le> n \<and> n \<le> 100)))
   \<and> ((init parse_int req :: error + 'v BaseFilter) = Inr self0 \<longrightarrow>
         request self0 = req \<and> query self0 = select
       \<and> 0 \<le> page (paginator self0)
       \<and> 1 \<le> per_page (paginator self0) \<and> per_page (paginator self0) \<le> 100
       \<and> (case map_of (py_dict req) ''page'' of
            None \<Rightarrow> page (paginator self0) = 0
          | Some s \<Rightarrow> parse_int s = Some (page (paginator self0)))
       \<and> (case map_of (py_dict req) ''per_page'' of
            None \<Rightarrow> per_page (paginator self0) = 10
          | Some s \<Rightarrow> parse_int s = Some (per_page (paginator self0))))
   \<and> (\<forall>s n. map_of (py_dict req) ''page'' = Some s \<longrightarrow> parse_int s = Some n \<longrightarrow> n < 0 \<longrightarrow>
         (\<exists>es. (init parse_int req :: error + 'v BaseFilter) = Inl (RequestValidationError es)
            \<and> LineError [LocField ''page''] (GreaterThanEqual 0) \<in> set es))
   \<and> (\<forall>s n. map_of (py_dict req) ''per_page'' = Some s \<longrightarrow> parse_int s = Some n \<longrightarrow> n < 1 \<longrightarrow>
         (\<exists>es. (init parse_int req :: error + 'v BaseFilter) = Inl (RequestValidationError es)
            \<and> LineError [LocField ''per_page''] (GreaterThanEqual 1) \<in> set es))
   \<and> (\<forall>s n. map_of (py_dict req) ''per_page'' = Some s \<longrightarrow> parse_int s = Some n \<longrightarrow> 100 < n \<longrightarrow>
         (\<exists>es. (init parse_int req :: error + 'v BaseFilter) = Inl (RequestValidationError es)
            \<and> LineError [LocField ''per_page''] (LessThanEqual 100) \<in> set es))
   \<and> (\<forall>s'. filter_stage cls coerce (self :: 'v BaseFilter) = Inr s' \<or> search cls self = Inr s'
          \<or> order cls self = Inr s' \<or> full cls coerce self = Inr s'
          \<or> s' = offset self \<or> s' = limit self \<or> s' = inject_query q self
        \<longrightarrow> paginator s' = paginator self)"
proof (intro conjI allI impI)
  show "(\<exists>self. (init parse_int req :: error + 'v BaseFilter) = Inr self) \<longleftrightarrow>
       (case map_of (py_dict req) ''page'' of
          None \<Rightarrow> True | Some s \<Rightarrow> (\<exists>n. parse_int s = Some n \<and> 0 \<le> n))
     \<and> (case map_of (py_dict req) ''per_page'' of
          None \<Rightarrow> True | Some s \<Rightarrow> (\<exists>n. parse_int s = Some n \<and> 1 \<le> n \<and> n \<le> 100))"
    by (auto simp: init_Inr_iff int_field_cases split: option.splits)
next
  assume ok: "(init parse_int req :: error + 'v BaseFilter) = Inr self0"
  then obtain p pp where p: "int_field parse_int ''page'' 0 0 None (py_dict req) = Inr p"
    and pp: "int_field parse_int ''per_page'' 10 1 (Some 100) (py_dict req) = Inr pp"
    and s0: "self0 = \<lparr>request = req, query = select, paginator = \<lparr>page = p, per_page = pp\<rparr>\<rparr>"
    unfolding init_Inr_iff by blast
  show "request self0 = req" "query self0 = select" using s0 by simp_all
  show "0 \<le> page (paginator self0)"
    using p s0 by (auto simp: int_field_cases split: option.splits)
  show "1 \<le> per_page (paginator self0)" "per_page (paginator self0) \<le> 100"
    using pp s0 by (auto simp: int_field_cases split: option.splits)
  show "case map_of (py_dict req) ''page'' of
            None \<Rightarrow> page (paginator self0) = 0
          | Some s \<Rightarrow> parse_int s = Some (page (paginator self0))"
    using p s0 by (auto simp: int_field_cases split: option.splits)
  show "case map_of (py_dict req) ''per_page'' of
            None \<Rightarrow> per_page (paginator self0) = 10
          | Some s \<Rightarrow> parse_int s = Some (per_page (paginator self0))"
    using pp s0 by (auto simp: int_field_cases split: option.splits)
next
  fix s n
  assume "map_of (py_dict req) ''page'' = Some s" "parse_int s = Some n" "n < 0"
  then have "int_field parse_int ''page'' 0 0 None (py_dict req)
      = Inl [LineError [LocField ''page''] (GreaterThanEqual 0)]"
    by (simp add: int_field_def)
  then show "\<exists>es. (init parse_int req :: error + 'v BaseFilter) = Inl (RequestValidationError es)
            \<and> LineError [LocField ''page''] (GreaterThanEqual 0) \<in> set es"
    by (rule init_Inl_page)
next
  fix s n
  assume "map_of (py_dict req) ''per_page'' = Some s" "parse_int s = Some n" "n < 1"
  then have "int_field parse_int ''per_page'' 10 1 (Some 100) (py_dict req)
      = Inl [LineError [LocField ''per_page''] (GreaterThanEqual 1)]"
    by (simp add: int_field_def)
  then show "\<exists>es. (init parse_int req :: error + 'v BaseFilter) = Inl (RequestValidationError es)
            \<and> LineError [LocField ''per_page''] (GreaterThanEqual 1) \<in> set es"
    by (rule init_Inl_per_page)
next
  fix s n
  assume "map_of (py_dict req) ''per_page'' = Some s" "parse_int s = Some n" "100 < n"
  then have "int_field parse_int ''per_page'' 10 1 (Some 100) (py_dict req)
      = Inl [LineError [LocField ''per_page''] (LessThanEqual 100)]"
    by (simp add: int_field_def)
  then show "\<exists>es. (init parse_int req :: error + 'v BaseFilter) = Inl (RequestValidationError es)
            \<and> LineError [LocField ''per_page''] (LessThanEqual 100) \<in> set es"
    by (rule init_Inl_per_page)
next
  fix s'
  assume "filter_stage cls coerce self = Inr s' \<or> search cls self = Inr s'
          \<or> order cls self = Inr s' \<or> full cls coerce self = Inr s'
          \<or> s' = offset self \<or> s' = limit self \<or> s' = inject_query q self"
  then show "paginator s' = paginator self"
    using filter_stage_keeps [of cls coerce self s'] search_keeps [of cls self s']
      order_keeps [of cls self s'] full_keeps [of cls coerce self s']
    by (auto simp: offset_limit_keep inject_query_def)
qed

theorem pagination_validated_at_construction_witness:
  "(\<exists>es. (init decimal_int [(''name'', ''Ann''), (''page'', ''-1'')] :: error + fvalue BaseFilter)
            = Inl (RequestValidationError es)
        \<and> LineError [LocField ''page''] (GreaterThanEqual 0) \<in> set es)
   \<and> (\<exists>es. (init decimal_int [(''per_page'', ''150''), (''order_by'', ''-age'')]
              :: error + fvalue BaseFilter) = Inl (RequestValidationError es)
        \<and> LineError [LocField ''per_page''] (LessThanEqual 100) \<in> set es)
   \<and> (\<exists>self. (init decimal_int [(''page'', ''1''), (''per_page'', ''5'')]
              :: error + fvalue BaseFilter) = Inr self)"
proof -
  have m1: "map_of (py_dict [(''name'', ''Ann''), (''page'', ''-1'')]) ''page'' = Some ''-1''"
    by (simp add: py_dict_def)
  have p1: "decimal_int ''-1'' = Some (- 1)" by (simp add: decimal_int_def)
  have b1: "(- 1 :: int) < 0" by simp
  note T1 = pagination_validated_at_construction
    [where parse_int = decimal_int and req = "[(''name'', ''Ann''), (''page'', ''-1'')]"]
  note one = T1 [THEN conjunct2, THEN conjunct2, THEN conjunct1, THEN spec, THEN spec,
      THEN mp, OF m1, THEN mp, OF p1, THEN mp, OF b1]
  have m2: "map_of (py_dict [(''per_page'', ''150''), (''order_by'', ''-age'')]) ''per_page''
      = Some ''150''"
    by (simp add: py_dict_def)
  have p2: "decimal_int ''150'' = Some 150" by (simp add: decimal_int_def)
  have b2: "(100 :: int) < 150" by simp
  note T2 = pagination_validated_at_construction
    [where parse_int = decimal_int and req = "[(''per_page'', ''150''), (''order_by'', ''-age'')]"]
  note two = T2 [THEN conjunct2, THEN conjunct2, THEN conjunct2, THEN conjunct2, THEN conjunct1,
      THEN spec, THEN spec, THEN mp, OF m2, THEN mp, OF p2, THEN mp, OF b2]
  have c3: "(case map_of (py_dict [(''page'', ''1''), (''per_page'', ''5'')]) ''page'' of
          None \<Rightarrow> True | Some s \<Rightarrow> (\<exists>n. decimal_int s = Some n \<and> 0 \<le> n))
     \<and> (case map_of (py_dict [(''page'', ''1''), (''per_page'', ''5'')]) ''per_page'' of
          None \<Rightarrow> True | Some s \<Rightarrow> (\<exists>n. decimal_int s = Some n \<and> 1 \<le> n \<and> n \<le> 100))"
    by (simp add: py_dict_def decimal_int_def)
  note T3 = pagination_validated_at_construction
    [where parse_int = decimal_int and req = "[(''page'', ''1''), (''per_page'', ''5'')]"]
  note three = T3 [THEN conjunct1, THEN iffD2, OF c3]
  from one two three show ?thesis by blast
qed

section \<open>The whole pipeline\<close>

text \<open>
  C8. \<^verbatim>\<open>full\<close> succeeds exactly when the filter stage succeeds on the instance, the search
  stage on its result and the order stage on that result, and it then returns the last
  result with offset and limit set, offset first. An error of a stage is the error of
  \<^verbatim>\<open>full\<close>, the earliest stage winning. The offset set is \<open>page * per_page\<close> and the limit
  is \<open>per_page\<close>, of the paginator the instance was constructed with.
\<close>

theorem full_runs_stages_in_order:
  "(full cls coerce self = Inr out \<longleftrightarrow>
      (\<exists>s1 s2 s3. filter_stage cls coerce self = Inr s1 \<and> search cls s1 = Inr s2
         \<and> order cls s2 = Inr s3 \<and> out = limit (offset s3)))
   \<and> (full cls coerce self = Inr out \<longrightarrow>
         offset_clause (query out) = Some (page (paginator self) * per_page (paginator self))
       \<and> limit_clause (query out) = Some (per_page (paginator self)))
   \<and> (\<forall>e. filter_stage cls coerce self = Inl e \<longrightarrow> full cls coerce self = Inl e)
   \<and> (\<forall>s1 e. filter_stage cls coerce self = Inr s1 \<longrightarrow> search cls s1 = Inl e \<longrightarrow>
         full cls coerce self = Inl e)
   \<and> (\<forall>s1 s2 e. filter_stage cls coerce self = Inr s1 \<longrightarrow> search cls s1 = Inr s2 \<longrightarrow>
         order cls s2 = Inl e \<longrightarrow> full cls coerce self = Inl e)
   \<and> offset_clause (query (offset self))
       = Some (page (paginator self) * per_page (paginator self))
   \<and> limit_clause (query (limit self)) = Some (per_page (paginator self))"
proof (intro conjI allI impI)
  show iff: "full cls coerce self = Inr out \<longleftrightarrow>
      (\<exists>s1 s2 s3. filter_stage cls coerce self = Inr s1 \<and> search cls s1 = Inr s2
         \<and> order cls s2 = Inr s3 \<and> out = limit (offset s3))"
    by (auto simp: full_def split: sum.splits)
  assume "full cls coerce self = Inr out"
  with iff obtain s1 s2 s3 where f: "filter_stage cls coerce self = Inr s1"
    and s: "search cls s1 = Inr s2" and o: "order cls s2 = Inr s3"
    and out: "out = limit (offset s3)"
    by blast
  have "paginator s3 = paginator self"
    using filter_stage_keeps [OF f] search_keeps [OF s] order_keeps [OF o] by simp
  then show "offset_clause (query out)
      = Some (page (paginator self) * per_page (paginator self))"
    and "limit_clause (query out) = Some (per_page (paginator self))"
    using out by (simp_all add: offset_def limit_def)
next
  fix e assume "filter_stage cls coerce self = Inl e"
  then show "full cls coerce self = Inl e" by (simp add: full_def)
next
  fix s1 e assume "filter_stage cls coerce self = Inr s1" "search cls s1 = Inl e"
  then show "full cls coerce self = Inl e" by (simp add: full_def)
next
  fix s1 s2 e
  assume "filter_stage cls coerce self = Inr s1" "search cls s1 = Inr s2" "order cls s2 = Inl e"
  then show "full cls coerce self = Inl e" by (simp add: full_def)
next
  show "offset_clause (query (offset self))
      = Some (page (paginator self) * per_page (paginator self))"
    by (simp add: offset_def)
  show "limit_clause (query (limit self)) = Some (per_page (paginator self))"
    by (simp add: limit_def)
qed

theorem full_runs_stages_in_order_witness:
  "full Person sample_coerce
     \<lparr>request = [(''name__regexp'', ''^A.*''), (''order_by'', ''-age''),
                 (''page'', ''1''), (''per_page'', ''5'')],
      query = select, paginator = \<lparr>page = 1, per_page = 5\<rparr>\<rparr>
   = Inr \<lparr>request = [(''name__regexp'', ''^A.*''), (''order_by'', ''-age''),
                     (''page'', ''1''), (''per_page'', ''5'')],
          query = \<lparr>whereclause = [Criterion ''name'' ''regexp_match'' (Scalar (VStr ''^A.*''))],
                   joins = [], order_by_clauses = [ColumnDesc ''age''],
                   offset_clause = Some 5, limit_clause = Some 5\<rparr>,
          paginator = \<lparr>page = 1, per_page = 5\<rparr>\<rparr>"
proof -
  let ?req = "[(''name__regexp'', ''^A.*''), (''order_by'', ''-age''),
               (''page'', ''1''), (''per_page'', ''5'')]"
  let ?self = "\<lparr>request = ?req, query = select :: fvalue Select,
                 paginator = \<lparr>page = 1, per_page = 5\<rparr>\<rparr>"
  let ?s1 = "?self\<lparr>query := select\<lparr>whereclause :=
               [Criterion ''name'' ''regexp_match'' (Scalar (VStr ''^A.*''))]\<rparr>\<rparr>"
  let ?s3 = "?s1\<lparr>query := (query ?s1)\<lparr>order_by_clauses := [ColumnDesc ''age'']\<rparr>\<rparr>"
  have f: "filter_stage Person sample_coerce ?self = Inr ?s1"
    by (simp add: filter_stage_def column_method_def query_params_def py_dict_def reserved_def parse_key_def
        ORM_LOOKUP_MAPPING_def Person_def schema_model_validate_def name_must_contain_space_def
        ValidationModel_validate_def sample_coerce_def select_def)
  have s: "search Person ?s1 = Inr ?s1"
    by (simp add: search_def query_params_def py_dict_def Person_def)
  have o: "order Person ?s1 = Inr ?s3"
    by (simp add: order_def query_params_def py_dict_def Person_def select_def)
  have "\<exists>s1 s2 s3. filter_stage Person sample_coerce ?self = Inr s1 \<and> search Person s1 = Inr s2
         \<and> order Person s2 = Inr s3 \<and> limit (offset ?s3) = limit (offset s3)"
    using f s o by blast
  then have "full Person sample_coerce ?self = Inr (limit (offset ?s3))"
    by (rule full_runs_stages_in_order [THEN conjunct1, THEN iffD2])
  then show ?thesis by (simp add: offset_def limit_def select_def)
qed

section \<open>Splitting and validating values\<close>

lemma py_split_nonempty: "py_split sep s \<noteq> []"
  by (induction sep s rule: py_split.induct) (auto split: list.splits)

lemma py_join_Cons: "ps \<noteq> [] \<Longrightarrow> py_join sep (p # ps) = p @ sep @ py_join sep ps"
  by (cases ps) auto

lemma py_join_Cons_head: "py_join sep ((c # p) # ps) = c # py_join sep (p # ps)"
  by (cases ps) auto

lemma py_join_split: "py_join sep (py_split sep s) = s"
proof (induction sep s rule: py_split.induct)
  case (1 sep)
  show ?case by simp
next
  case (2 sep c cs)
  show ?case
  proof (cases "sep \<noteq> [] \<and> take (length sep) (c # cs) = sep")
    case True
    then have "py_join sep (py_split sep (c # cs))
        = sep @ py_join sep (py_split sep (drop (length sep) (c # cs)))"
      by (simp add: py_join_Cons py_split_nonempty)
    also have "\<dots> = take (length sep) (c # cs) @ drop (length sep) (c # cs)"
      using True "2.IH"(1) by simp
    finally show ?thesis by (simp only: append_take_drop_id)
  next
    case False
    obtain p ps where sp: "py_split sep cs = p # ps"
      using py_split_nonempty [of sep cs] by (cases "py_split sep cs") auto
    from False have e: "py_split sep (c # cs) = (c # p) # ps"
      using sp by auto
    have "py_join sep (py_split sep cs) = cs"
      using "2.IH"(2) False by blast
    then have "py_join sep (p # ps) = cs" by (simp only: sp)
    then show ?thesis
      by (simp only: e py_join_Cons_head)
  qed
qed

lemma py_split_char_free:
  "t \<in> set (py_split [c] s) \<Longrightarrow> c \<notin> set t"
proof (induction "[c]" s arbitrary: t rule: py_split.induct)
  case 1
  then show ?case by simp
next
  case (2 d cs)
  show ?case
  proof (cases "d = c")
    case True
    with 2 show ?thesis by auto
  next
    case False
    obtain p ps where sp: "py_split [c] cs = p # ps"
      using py_split_nonempty [of "[c]" cs] by (cases "py_split [c] cs") auto
    with False 2 show ?thesis by auto
  qed
qed

lemma validate_items_those_Some:
  "those (map (coerce T) toks) = Some vals \<Longrightarrow> validate_items coerce T i toks = ([], vals)"
  by (induction toks arbitrary: i vals) (auto split: option.splits)

lemma validate_items_bad_set:
  "set (fst (validate_items coerce T i toks))
     = {i + j | j. j < length toks \<and> coerce T (toks ! j) = None}"
proof (induction toks arbitrary: i)
  case Nil
  show ?case by simp
next
  case (Cons tok toks)
  have shift: "{i + j | j. j < Suc (length toks) \<and> coerce T ((tok # toks) ! j) = None}
      = (if coerce T tok = None then {i} else {})
        \<union> {Suc i + j | j. j < length toks \<and> coerce T (toks ! j) = None}"
    (is "?L = ?R")
  proof (intro set_eqI iffI)
    fix x assume "x \<in> ?L"
    then obtain j where j: "x = i + j" "j < Suc (length toks)"
      "coerce T ((tok # toks) ! j) = None" by blast
    show "x \<in> ?R"
    proof (cases j)
      case 0
      with j show ?thesis by simp
    next
      case (Suc k)
      with j have "x = Suc i + k" "k < length toks" "coerce T (toks ! k) = None" by simp_all
      then show ?thesis by blast
    qed
  next
    fix x assume "x \<in> ?R"
    then consider "coerce T tok = None" "x = i"
      | k where "x = Suc i + k" "k < length toks" "coerce T (toks ! k) = None"
      by (auto split: if_splits)
    then show "x \<in> ?L"
    proof cases
      case 1
      then have "x = i + 0 \<and> 0 < Suc (length toks) \<and> coerce T ((tok # toks) ! 0) = None"
        by simp
      then show ?thesis by blast
    next
      case 2
      then have "x = i + Suc k \<and> Suc k < Suc (length toks)
          \<and> coerce T ((tok # toks) ! Suc k) = None"
        by simp
      then show ?thesis by blast
    qed
  qed
  show ?case
    using Cons.IH [of "Suc i"] shift
    by (auto split: prod.splits option.splits)
qed

lemma those_None_iff: "those xs = None \<longleftrightarrow> None \<in> set xs"
  by (induction xs) (auto split: option.splits)

lemma validate_items_those_None:
  assumes "those (map (coerce T) toks) = None"
  shows "fst (validate_items coerce T i toks) \<noteq> []"
proof -
  from assms have "None \<in> set (map (coerce T) toks)" by (simp add: those_None_iff)
  then obtain j where "j < length toks" "coerce T (toks ! j) = None"
    by (auto simp: in_set_conv_nth)
  then have "i + j \<in> set (fst (validate_items coerce T i toks))"
    unfolding validate_items_bad_set by blast
  then show ?thesis by auto
qed

lemma validator_on_list:
  assumes "context \<noteq> []"
    and "map_of context fname = Some ''in_'' \<or> map_of context fname = Some ''not_in''"
  shows "name_must_contain_space coerce (Some T) context fname v =
      (case validate_items coerce T 0 (py_split '','' v) of
         ([], vals) \<Rightarrow> Inr (PyList vals)
       | (bad, vals) \<Rightarrow> Inl (map (\<lambda>i. LineError [LocIndex i] CoercionFailure) bad))"
  using assms
  by (auto simp: name_must_contain_space_def ValidationModel_validate_def strip_loc_def
      Let_def comp_def split: prod.splits list.splits)

lemma validator_on_scalar:
  assumes "context \<noteq> []"
    and "map_of context fname \<noteq> Some ''in_''" and "map_of context fname \<noteq> Some ''not_in''"
  shows "name_must_contain_space coerce (Some T) context fname v =
      (case coerce T v of
         None \<Rightarrow> Inl [LineError [] CoercionFailure]
       | Some x \<Rightarrow> Inr (Scalar x))"
  using assms
  by (auto simp: name_must_contain_space_def ValidationModel_validate_def strip_loc_def
      Let_def split: option.splits)

lemma membership_lookup_names:
  assumes "map_of ORM_LOOKUP_MAPPING op = Some lk"
  shows "lk \<in> set [''in_'', ''not_in''] \<longleftrightarrow> op \<in> set [''in'', ''not_in'']"
  using assms by (auto simp: ORM_LOOKUP_MAPPING_def split: if_splits)

text \<open>
  C4. The validator of a field with declared type \<open>T\<close>, given a context. Under the lookup
  of the operator \<^verbatim>\<open>in\<close> or \<^verbatim>\<open>not_in\<close> the raw value is split at its commas (the parts hold
  no comma and, joined by commas, give the raw value back), every part is converted to
  \<open>T\<close>, and the result is the list of the converted parts; when a part does not convert,
  validation fails with one line error for each such part, at its index. Under any other
  lookup the raw value itself is converted, to a scalar, and a value that does not
  convert gives one line error. The two membership lookups are those of the operators
  \<^verbatim>\<open>in\<close> and \<^verbatim>\<open>not_in\<close> and of no other.
\<close>

theorem membership_values_split_and_coerced:
  assumes "context \<noteq> []"
  shows "(\<forall>op. op \<in> set [''in'', ''not_in''] \<longrightarrow>
             map_of context fname = map_of ORM_LOOKUP_MAPPING op \<longrightarrow>
             py_join '','' (py_split '','' v) = v
           \<and> (\<forall>t \<in> set (py_split '','' v). CHR '','' \<notin> set t)
           \<and> (\<forall>vals. those (map (coerce T) (py_split '','' v)) = Some vals \<longrightarrow>
                 name_must_contain_space coerce (Some T) context fname v = Inr (PyList vals))
           \<and> (those (map (coerce T) (py_split '','' v)) = None \<longrightarrow>
                 (\<exists>es. name_must_contain_space coerce (Some T) context fname v = Inl es
                    \<and> es \<noteq> []
                    \<and> set es = {LineError [LocIndex j] CoercionFailure | j.
                         j < length (py_split '','' v)
                         \<and> coerce T (py_split '','' v ! j) = None})))
    \<and> (\<forall>lk. lk \<notin> set [''in_'', ''not_in''] \<longrightarrow> map_of context fname = Some lk \<longrightarrow>
          name_must_contain_space coerce (Some T) context fname v =
            (case coerce T v of
               None \<Rightarrow> Inl [LineError [] CoercionFailure]
             | Some x \<Rightarrow> Inr (Scalar x)))
    \<and> (\<forall>op lk. map_of ORM_LOOKUP_MAPPING op = Some lk \<longrightarrow>
          (lk \<in> set [''in_'', ''not_in''] \<longleftrightarrow> op \<in> set [''in'', ''not_in'']))"
proof (intro conjI allI impI ballI)
  fix op
  assume op: "op \<in> set [''in'', ''not_in'']"
    and ctx: "map_of context fname = map_of ORM_LOOKUP_MAPPING op"
  have lk: "map_of context fname = Some ''in_'' \<or> map_of context fname = Some ''not_in''"
    using op ctx by (auto simp: ORM_LOOKUP_MAPPING_def)
  note unfold = validator_on_list [OF assms lk, of coerce T v]
  show "py_join '','' (py_split '','' v) = v" by (rule py_join_split)
  {
    fix t assume "t \<in> set (py_split '','' v)"
    then show "CHR '','' \<notin> set t" by (rule py_split_char_free)
  }
  {
    fix vals assume "those (map (coerce T) (py_split '','' v)) = Some vals"
    then have "validate_items coerce T 0 (py_split '','' v) = ([], vals)"
      by (rule validate_items_those_Some)
    then show "name_must_contain_space coerce (Some T) context fname v = Inr (PyList vals)"
      unfolding unfold by simp
  }
  {
    assume none: "those (map (coerce T) (py_split '','' v)) = None"
    obtain bad vals where vi: "validate_items coerce T 0 (py_split '','' v) = (bad, vals)"
      by (cases "validate_items coerce T 0 (py_split '','' v)")
    have ne: "bad \<noteq> []"
      using validate_items_those_None [where coerce = coerce and T = T and i = 0, OF none] vi
      by simp
    have bs: "set bad = {j. j < length (py_split '','' v)
                \<and> coerce T (py_split '','' v ! j) = None}"
      using validate_items_bad_set [of coerce T 0 "py_split '','' v"] vi by simp
    have res: "name_must_contain_space coerce (Some T) context fname v
        = Inl (map (\<lambda>i. LineError [LocIndex i] CoercionFailure) bad)"
      unfolding unfold vi using ne by (cases bad) simp_all
    have "set (map (\<lambda>i. LineError [LocIndex i] CoercionFailure) bad)
        = {LineError [LocIndex j] CoercionFailure | j.
             j < length (py_split '','' v) \<and> coerce T (py_split '','' v ! j) = None}"
      using bs by auto
    with res ne
    show "\<exists>es. name_must_contain_space coerce (Some T) context fname v = Inl es
            \<and> es \<noteq> []
            \<and> set es = {LineError [LocIndex j] CoercionFailure | j.
                 j < length (py_split '','' v) \<and> coerce T (py_split '','' v ! j) = None}"
      by simp
  }
next
  fix lk
  assume "lk \<notin> set [''in_'', ''not_in'']" "map_of context fname = Some lk"
  then have "map_of context fname \<noteq> Some ''in_''" "map_of context fname \<noteq> Some ''not_in''"
    by auto
  then show "name_must_contain_space coerce (Some T) context fname v =
            (case coerce T v of
               None \<Rightarrow> Inl [LineError [] CoercionFailure]
             | Some x \<Rightarrow> Inr (Scalar x))"
    by (rule validator_on_scalar [OF assms])
next
  fix op lk
  assume "map_of ORM_LOOKUP_MAPPING op = Some lk"
  then show "lk \<in> set [''in_'', ''not_in''] \<longleftrightarrow> op \<in> set [''in'', ''not_in'']"
    by (rule membership_lookup_names)
qed

theorem membership_values_split_and_coerced_witness:
  "name_must_contain_space sample_coerce (Some TInt) [(''age'', ''in_'')] ''age'' ''1,2,3''
     = Inr (PyList [VInt 1, VInt 2, VInt 3])
   \<and> (\<exists>es. name_must_contain_space sample_coerce (Some TInt) [(''age'', ''in_'')] ''age'' ''1,2,x''
          = Inl es \<and> es \<noteq> [])
   \<and> name_must_contain_space sample_coerce (Some TInt) [(''age'', ''__gt__'')] ''age'' ''18''
     = Inr (Scalar (VInt 18))
   \<and> filter_stage Person sample_coerce (new_filter [(''age__in'', ''1,2,3'')])
     = Inr ((new_filter [(''age__in'', ''1,2,3'')])\<lparr>query := select\<lparr>whereclause :=
              [Criterion ''age'' ''in_'' (PyList [VInt 1, VInt 2, VInt 3])]\<rparr>\<rparr>)
   \<and> filter_stage Person sample_coerce (new_filter [(''age__in'', ''1,2,x'')])
     = Inl (RequestValidationError [LineError [LocField ''age'', LocIndex 2] CoercionFailure])"
proof -
  have c: "[(''age'', ''in_'')] \<noteq> []" by simp
  have o: "''in'' \<in> set [''in'', ''not_in'']" by simp
  have m: "map_of [(''age'', ''in_'')] ''age'' = map_of ORM_LOOKUP_MAPPING ''in''"
    by (simp add: ORM_LOOKUP_MAPPING_def)
  have t1: "those (map (sample_coerce TInt) (py_split '','' ''1,2,3''))
      = Some [VInt 1, VInt 2, VInt 3]"
    by (simp add: sample_coerce_def decimal_int_def)
  have t2: "those (map (sample_coerce TInt) (py_split '','' ''1,2,x'')) = None"
    by (simp add: sample_coerce_def decimal_int_def)
  note L1 = membership_values_split_and_coerced [OF c, where fname = "''age''"
      and v = "''1,2,3''" and coerce = sample_coerce and T = TInt,
      THEN conjunct1, THEN spec, THEN mp, OF o, THEN mp, OF m]
  note one = L1 [THEN conjunct2, THEN conjunct2, THEN conjunct1, THEN spec, THEN mp, OF t1]
  note L2 = membership_values_split_and_coerced [OF c, where fname = "''age''"
      and v = "''1,2,x''" and coerce = sample_coerce and T = TInt,
      THEN conjunct1, THEN spec, THEN mp, OF o, THEN mp, OF m]
  from L2 [THEN conjunct2, THEN conjunct2, THEN conjunct2, THEN mp, OF t2]
  have two: "\<exists>es. name_must_contain_space sample_coerce (Some TInt) [(''age'', ''in_'')]
      ''age'' ''1,2,x'' = Inl es \<and> es \<noteq> []"
    by blast
  have c': "[(''age'', ''__gt__'')] \<noteq> []" by simp
  have n: "''__gt__'' \<notin> set [''in_'', ''not_in'']" by simp
  have m': "map_of [(''age'', ''__gt__'')] ''age'' = Some ''__gt__''" by simp
  from membership_values_split_and_coerced [OF c', where fname = "''age''"
      and v = "''18''" and coerce = sample_coerce and T = TInt,
      THEN conjunct2, THEN conjunct1, THEN spec, THEN mp, OF n, THEN mp, OF m']
  have three: "name_must_contain_space sample_coerce (Some TInt) [(''age'', ''__gt__'')]
      ''age'' ''18'' = Inr (Scalar (VInt 18))"
    by (simp add: sample_coerce_def decimal_int_def)
  have four: "filter_stage Person sample_coerce (new_filter [(''age__in'', ''1,2,3'')])
     = Inr ((new_filter [(''age__in'', ''1,2,3'')])\<lparr>query := select\<lparr>whereclause :=
              [Criterion ''age'' ''in_'' (PyList [VInt 1, VInt 2, VInt 3])]\<rparr>\<rparr>)"
    by (simp add: filter_stage_def column_method_def query_params_def py_dict_def reserved_def parse_key_def
        ORM_LOOKUP_MAPPING_def Person_def schema_model_validate_def name_must_contain_space_def
        ValidationModel_validate_def sample_coerce_def decimal_int_def select_def new_filter_def)
  have five: "filter_stage Person sample_coerce (new_filter [(''age__in'', ''1,2,x'')])
     = Inl (RequestValidationError [LineError [LocField ''age'', LocIndex 2] CoercionFailure])"
    by (simp add: filter_stage_def column_method_def query_params_def py_dict_def reserved_def parse_key_def
        ORM_LOOKUP_MAPPING_def Person_def schema_model_validate_def name_must_contain_space_def
        ValidationModel_validate_def sample_coerce_def decimal_int_def select_def new_filter_def
        strip_loc_def with_outer_loc_def)
  from one two three four five show ?thesis by simp
qed

section \<open>Validation errors of several fields\<close>

lemma validator_error_shape:
  assumes "name_must_contain_space coerce ann context fname v = Inl es"
  shows "es \<noteq> [] \<and> (\<forall>e \<in> set es. \<exists>loc k. e = LineError loc k)"
proof (cases ann)
  case None
  with assms show ?thesis by (auto simp: name_must_contain_space_def)
next
  case (Some T)
  show ?thesis
  proof (cases "context = []")
    case True
    with assms Some show ?thesis by (auto simp: name_must_contain_space_def)
  next
    case False
    with assms Some show ?thesis
      by (auto simp: name_must_contain_space_def ValidationModel_validate_def strip_loc_def
          Let_def split: if_splits option.splits prod.splits list.splits sum.splits)
  qed
qed

lemma validate_fields_errors:
  "fst (validate_fields coerce flds obj context) =
     concat (map (\<lambda>(fname, info).
        case map_of obj fname of
          None \<Rightarrow> []
        | Some v \<Rightarrow>
            (case name_must_contain_space coerce (annotation info) context fname v of
               Inl es \<Rightarrow> map (with_outer_loc fname) es
             | Inr x \<Rightarrow> [])) flds)"
  by (induction flds) (auto split: prod.splits option.splits sum.splits)

lemma schema_model_validate_Inl:
  assumes "fst (validate_fields coerce flds obj context) \<noteq> []"
  shows "schema_model_validate coerce flds obj context
      = Inl (fst (validate_fields coerce flds obj context))"
  using assms by (auto simp: schema_model_validate_def split: prod.splits list.splits)

lemma validate_items_bad:
  "fst (validate_items coerce T i toks)
     = map fst (filter (\<lambda>(j, tok). coerce T tok = None) (enumerate i toks))"
proof (induction toks arbitrary: i)
  case Nil
  show ?case by simp
next
  case (Cons tok toks)
  obtain bad vals where r: "validate_items coerce T (Suc i) toks = (bad, vals)"
    by (cases "validate_items coerce T (Suc i) toks")
  from Cons.IH [of "Suc i"] r
  have "bad = map fst (filter (\<lambda>(j, tok). coerce T tok = None) (enumerate (Suc i) toks))"
    by simp
  with r show ?case by (auto split: option.splits)
qed

lemma py_dict_from_nonempty: "d \<noteq> [] \<Longrightarrow> py_dict_from d ps \<noteq> []"
proof (induction ps arbitrary: d)
  case Nil
  then show ?case by simp
next
  case (Cons p ps)
  obtain k v where p: "p = (k, v)" by (cases p)
  have "AList.update k v d \<noteq> []" by (rule update_nonempty)
  then have "py_dict_from (AList.update k v d) ps \<noteq> []" by (rule Cons.IH)
  then show ?case unfolding p py_dict_from.simps .
qed

lemma py_dict_nonempty: "ps \<noteq> [] \<Longrightarrow> py_dict ps \<noteq> []"
proof (cases ps)
  case Nil
  assume "ps \<noteq> []"
  with Nil show ?thesis by simp
next
  case (Cons p qs)
  obtain k v where p: "p = (k, v)" by (cases p)
  have "AList.update k v [] \<noteq> []" by (rule update_nonempty)
  then have "py_dict_from (AList.update k v []) qs \<noteq> []" by (rule py_dict_from_nonempty)
  then show ?thesis unfolding Cons p py_dict_def py_dict_from.simps .
qed

lemma field_entries:
  assumes "ctx \<noteq> []"
  shows "(case name_must_contain_space coerce (annotation info) ctx f v of
            Inl es \<Rightarrow> map (with_outer_loc f) es
          | Inr x \<Rightarrow> [])
     = (case annotation info of
          None \<Rightarrow> [LineError [LocField f] UnknownFieldType]
        | Some T \<Rightarrow>
            if map_of ctx f \<in> set [Some ''in_'', Some ''not_in'']
            then map (\<lambda>(j, tok). LineError [LocField f, LocIndex j] CoercionFailure)
                   (filter (\<lambda>(j, tok). coerce T tok = None) (enumerate 0 (py_split '','' v)))
            else (case coerce T v of
                    None \<Rightarrow> [LineError [LocField f] CoercionFailure]
                  | Some x \<Rightarrow> []))"
proof (cases "annotation info")
  case None
  then show ?thesis by (simp add: name_must_contain_space_def with_outer_loc_def)
next
  case (Some T)
  show ?thesis
  proof (cases "map_of ctx f \<in> set [Some ''in_'', Some ''not_in'']")
    case True
    then have lk: "map_of ctx f = Some ''in_'' \<or> map_of ctx f = Some ''not_in''" by auto
    obtain bad vals where vi: "validate_items coerce T 0 (py_split '','' v) = (bad, vals)"
      by (cases "validate_items coerce T 0 (py_split '','' v)")
    have bad: "bad = map fst (filter (\<lambda>(j, tok). coerce T tok = None)
                 (enumerate 0 (py_split '','' v)))"
      using validate_items_bad [of coerce T 0 "py_split '','' v"] vi by simp
    have "(case name_must_contain_space coerce (Some T) ctx f v of
            Inl es \<Rightarrow> map (with_outer_loc f) es
          | Inr x \<Rightarrow> [])
        = map (\<lambda>i. LineError [LocField f, LocIndex i] CoercionFailure) bad"
      unfolding validator_on_list [OF assms lk] vi
      by (cases bad) (simp_all add: with_outer_loc_def)
    also have "\<dots> = map (\<lambda>(j, tok). LineError [LocField f, LocIndex j] CoercionFailure)
                   (filter (\<lambda>(j, tok). coerce T tok = None) (enumerate 0 (py_split '','' v)))"
      unfolding bad by (simp add: case_prod_beta)
    finally show ?thesis using Some True by simp
  next
    case False
    then have "map_of ctx f \<noteq> Some ''in_''" "map_of ctx f \<noteq> Some ''not_in''" by auto
    then have eq: "name_must_contain_space coerce (Some T) ctx f v =
        (case coerce T v of
           None \<Rightarrow> Inl [LineError [] CoercionFailure]
         | Some x \<Rightarrow> Inr (Scalar x))"
      by (rule validator_on_scalar [OF assms])
    show ?thesis using Some False
      by (simp add: eq with_outer_loc_def split: option.splits)
  qed
qed

lemma add_criteria_Inl:
  assumes "add_criteria cls vals ls q = Inl e"
  shows "(\<exists>s. e = AttributeError s) \<or> (\<exists>s. e = ArgumentError s)"
  using assms
  by (induction ls arbitrary: q)
    (auto simp: column_method_def split: if_splits option.splits sum.splits)


text \<open>
  C5, as the code has it. When the parser has accepted every key, the values of all
  fields are validated before anything is reported. The entries of the report are, field
  by field in the order the schema declares them and for the (last) value and lookup
  given to the field: none for a field without value or whose value converts; one for a
  field without declared type; under a membership lookup one for each part of the value
  that does not convert, at the index of the part; under any other lookup one for a
  value that does not convert. When there is such an entry, the filter stage fails with
  exactly these entries in this order; when there is none, it does not fail with a
  validation error. The parser, in contrast, stops at the first key it rejects: the
  error of that key is the error of the stage, whatever follows it.
\<close>

theorem coercion_errors_are_batched:
  "(collect_lookups cls (query_params self) [] = Inr lookups \<longrightarrow>
    obj = py_dict (map (\<lambda>l. (field_name l, raw_value l)) lookups) \<longrightarrow>
    ctx = py_dict (map (\<lambda>l. (field_name l, lookup l)) lookups) \<longrightarrow>
    es = concat (map (\<lambda>(f, info).
           case map_of obj f of
             None \<Rightarrow> []
           | Some v \<Rightarrow>
               (case annotation info of
                  None \<Rightarrow> [LineError [LocField f] UnknownFieldType]
                | Some T \<Rightarrow>
                    if map_of ctx f \<in> set [Some ''in_'', Some ''not_in'']
                    then map (\<lambda>(j, tok). LineError [LocField f, LocIndex j] CoercionFailure)
                           (filter (\<lambda>(j, tok). coerce T tok = None)
                              (enumerate 0 (py_split '','' v)))
                    else (case coerce T v of
                            None \<Rightarrow> [LineError [LocField f] CoercionFailure]
                          | Some x \<Rightarrow> []))) (schema cls)) \<longrightarrow>
    (es \<noteq> [] \<longrightarrow> filter_stage cls coerce self = Inl (RequestValidationError es))
    \<and> (es = [] \<longrightarrow> (\<forall>ds. filter_stage cls coerce self \<noteq> Inl (RequestValidationError ds))))
   \<and> (query_params self = pre @ (key, v) # post \<longrightarrow>
       (\<forall>(k, w) \<in> set pre. reserved cls k \<or> (\<exists>l. parse_key cls k w = Inr l)) \<longrightarrow>
       \<not> reserved cls key \<longrightarrow> parse_key cls key v = Inl e \<longrightarrow>
       filter_stage cls coerce self = Inl e)"
proof (intro conjI impI)
  assume cl: "collect_lookups cls (query_params self) [] = Inr lookups"
    and obj: "obj = py_dict (map (\<lambda>l. (field_name l, raw_value l)) lookups)"
    and ctx: "ctx = py_dict (map (\<lambda>l. (field_name l, lookup l)) lookups)"
    and es: "es = concat (map (\<lambda>(f, info).
           case map_of obj f of
             None \<Rightarrow> []
           | Some v \<Rightarrow>
               (case annotation info of
                  None \<Rightarrow> [LineError [LocField f] UnknownFieldType]
                | Some T \<Rightarrow>
                    if map_of ctx f \<in> set [Some ''in_'', Some ''not_in'']
                    then map (\<lambda>(j, tok). LineError [LocField f, LocIndex j] CoercionFailure)
                           (filter (\<lambda>(j, tok). coerce T tok = None)
                              (enumerate 0 (py_split '','' v)))
                    else (case coerce T v of
                            None \<Rightarrow> [LineError [LocField f] CoercionFailure]
                          | Some x \<Rightarrow> []))) (schema cls))"
  have same: "fst (validate_fields coerce (schema cls) obj ctx) = es"
  proof (cases "lookups = []")
    case True
    then have "obj = []" using obj by (simp add: py_dict_def)
    then show ?thesis unfolding validate_fields_errors es
      by (simp add: case_prod_beta)
  next
    case False
    then have cne: "ctx \<noteq> []" using ctx by (simp add: py_dict_nonempty)
    show ?thesis
      unfolding validate_fields_errors es
      by (rule arg_cong [where f = concat], rule map_cong)
        (auto simp: field_entries [OF cne] split: option.splits)
  qed
  {
    assume "es \<noteq> []"
    with same have "schema_model_validate coerce (schema cls) obj ctx = Inl es"
      using schema_model_validate_Inl [of coerce "schema cls" obj ctx] by simp
    then show "filter_stage cls coerce self = Inl (RequestValidationError es)"
      using cl obj ctx by (simp add: filter_stage_def)
  }
  {
    assume "es = []"
    with same obtain vals where
      "schema_model_validate coerce (schema cls) obj ctx = Inr vals"
      by (cases "validate_fields coerce (schema cls) obj ctx")
        (auto simp: schema_model_validate_def)
    then have fs: "filter_stage cls coerce self =
        (case add_criteria cls vals lookups (query self) of
           Inl e \<Rightarrow> Inl e
         | Inr q \<Rightarrow> Inr (self\<lparr>query := q\<rparr>))"
      using cl obj ctx by (simp add: filter_stage_def)
    show "\<forall>ds. filter_stage cls coerce self \<noteq> Inl (RequestValidationError ds)"
      unfolding fs using add_criteria_Inl [of cls vals lookups "query self"]
      by (auto split: sum.splits)
  }
next
  assume "query_params self = pre @ (key, v) # post"
    "\<forall>(k, w) \<in> set pre. reserved cls k \<or> (\<exists>l. parse_key cls k w = Inr l)"
    "\<not> reserved cls key" "parse_key cls key v = Inl e"
  then show "filter_stage cls coerce self = Inl e"
    by (rule filter_stage_first_error)
qed


theorem coercion_errors_are_batched_witness:
  "filter_stage Account sample_coerce (new_filter [(''id'', ''a''), (''age__in'', ''x,1,y'')])
     = Inl (RequestValidationError
         [LineError [LocField ''id''] CoercionFailure,
          LineError [LocField ''age'', LocIndex 0] CoercionFailure,
          LineError [LocField ''age'', LocIndex 2] CoercionFailure])
   \<and> filter_stage Account sample_coerce
        (new_filter [(''zzz'', ''1''), (''age'', ''b''), (''yyy'', ''2'')])
      = Inl (RequestValidationError [UnknownFilteringField ''zzz''])"
proof -
  let ?self = "new_filter [(''id'', ''a''), (''age__in'', ''x,1,y'')]"
  let ?lookups = "[\<lparr>field_name = ''id'', lookup = ''__eq__'', raw_value = ''a''\<rparr>,
                   \<lparr>field_name = ''age'', lookup = ''in_'', raw_value = ''x,1,y''\<rparr>]"
  let ?obj = "py_dict (map (\<lambda>l. (field_name l, raw_value l)) ?lookups)"
  let ?ctx = "py_dict (map (\<lambda>l. (field_name l, lookup l)) ?lookups)"
  let ?es = "[LineError [LocField ''id''] CoercionFailure,
              LineError [LocField ''age'', LocIndex 0] CoercionFailure,
              LineError [LocField ''age'', LocIndex 2] CoercionFailure]"
  have cl: "collect_lookups Account (query_params ?self) [] = Inr ?lookups"
    by (simp add: query_params_def new_filter_def py_dict_def reserved_def parse_key_def
        ORM_LOOKUP_MAPPING_def Account_def)
  have e: "?es = concat (map (\<lambda>(f, info).
           case map_of ?obj f of
             None \<Rightarrow> []
           | Some v \<Rightarrow>
               (case annotation info of
                  None \<Rightarrow> [LineError [LocField f] UnknownFieldType]
                | Some T \<Rightarrow>
                    if map_of ?ctx f \<in> set [Some ''in_'', Some ''not_in'']
                    then map (\<lambda>(j, tok). LineError [LocField f, LocIndex j] CoercionFailure)
                           (filter (\<lambda>(j, tok). sample_coerce T tok = None)
                              (enumerate 0 (py_split '','' v)))
                    else (case sample_coerce T v of
                            None \<Rightarrow> [LineError [LocField f] CoercionFailure]
                          | Some x \<Rightarrow> []))) (schema Account))"
    by (simp add: Account_def py_dict_def sample_coerce_def decimal_int_def)
  have ne: "?es \<noteq> []" by simp
  note one = coercion_errors_are_batched [where cls = Account and self = "?self"
      and lookups = "?lookups" and obj = "?obj" and ctx = "?ctx" and es = "?es"
      and coerce = sample_coerce, THEN conjunct1, THEN mp, OF cl, THEN mp, OF refl,
      THEN mp, OF refl, THEN mp, OF e, THEN conjunct1, THEN mp, OF ne]
  let ?self2 = "new_filter [(''zzz'', ''1''), (''age'', ''b''), (''yyy'', ''2'')]"
  have q: "query_params ?self2 = [] @ (''zzz'', ''1'') # [(''age'', ''b''), (''yyy'', ''2'')]"
    by (simp add: query_params_def new_filter_def py_dict_def)
  have pre: "\<forall>(k, w) \<in> set []. reserved Account k \<or> (\<exists>l. parse_key Account k w = Inr l)"
    by simp
  have nr: "\<not> reserved Account ''zzz''" by (simp add: reserved_def Account_def)
  have pk: "parse_key Account ''zzz'' ''1''
      = Inl (RequestValidationError [UnknownFilteringField ''zzz''])"
    by (simp add: parse_key_def Account_def)
  note two = coercion_errors_are_batched [where cls = Account and self = "?self2"
      and coerce = sample_coerce, THEN conjunct2, THEN mp, OF q, THEN mp, OF pre,
      THEN mp, OF nr, THEN mp, OF pk]
  from one two show ?thesis by blast
qed

text \<open>
  Two failing fields and three entries: under a membership lookup every part that does
  not convert has an entry of its own.
\<close>

theorem entries_per_field_counterexample:
  "filter_stage Account sample_coerce (new_filter [(''id'', ''a''), (''age__in'', ''x,y'')])
     = Inl (RequestValidationError
         [LineError [LocField ''id''] CoercionFailure,
          LineError [LocField ''age'', LocIndex 0] CoercionFailure,
          LineError [LocField ''age'', LocIndex 1] CoercionFailure])"
  by (simp add: filter_stage_def column_method_def query_params_def py_dict_def reserved_def parse_key_def
      ORM_LOOKUP_MAPPING_def Account_def schema_model_validate_def name_must_contain_space_def
      ValidationModel_validate_def sample_coerce_def decimal_int_def new_filter_def
      strip_loc_def with_outer_loc_def)

section \<open>Repeated keys\<close>

lemma map_of_py_dict_from: "map_of (py_dict_from d ps) = map_of d ++ map_of (rev ps)"
proof (induction ps arbitrary: d)
  case Nil
  show ?case by simp
next
  case (Cons p ps)
  obtain k v where p: "p = (k, v)" by (cases p)
  have "map_of (py_dict_from d (p # ps)) = map_of (AList.update k v d) ++ map_of (rev ps)"
    using Cons.IH [of "AList.update k v d"] p by simp
  also have "\<dots> = map_of d ++ map_of (rev (p # ps))"
    using p by (auto simp: update_conv' fun_eq_iff map_add_def split: option.splits)
  finally show ?case .
qed

lemma map_of_py_dict: "map_of (py_dict ps) = map_of (rev ps)"
  by (simp add: py_dict_def map_of_py_dict_from)

lemma distinct_py_dict_from:
  "distinct (map fst d) \<Longrightarrow> distinct (map fst (py_dict_from d ps))"
  by (induction ps arbitrary: d) (auto simp: distinct_update)

lemma distinct_py_dict: "distinct (map fst (py_dict ps))"
  by (simp add: py_dict_def distinct_py_dict_from)

lemma map_of_rev_last:
  "map_of (rev xs) k =
     (if filter (\<lambda>p. fst p = k) xs = [] then None
      else Some (snd (last (filter (\<lambda>p. fst p = k) xs))))"
  by (induction xs rule: rev_induct) auto

lemma map_of_unique:
  assumes "(k, v) \<in> set xs" and "\<forall>v'. (k, v') \<in> set xs \<longrightarrow> v' = v"
  shows "map_of xs k = Some v"
proof -
  from assms(1) have "k \<in> fst ` set xs" by force
  then obtain v' where v': "map_of xs k = Some v'"
    by (cases "map_of xs k") (auto simp: map_of_eq_None_iff)
  then have "(k, v') \<in> set xs" by (rule map_of_SomeD)
  with assms(2) v' show ?thesis by simp
qed

lemma collect_lookups_Inr:
  assumes "collect_lookups cls items acc = Inr ls"
  shows "\<exists>new. ls = acc @ new
     \<and> list_all2 (\<lambda>p l. parse_key cls (fst p) (snd p) = Inr l)
         (filter (\<lambda>p. \<not> reserved cls (fst p)) items) new"
  using assms
proof (induction items arbitrary: acc)
  case Nil
  then show ?case by simp
next
  case (Cons p items)
  obtain k v where p: "p = (k, v)" by (cases p)
  show ?case
  proof (cases "reserved cls k")
    case True
    with Cons p show ?thesis by simp
  next
    case False
    with Cons.prems p obtain l where l: "parse_key cls k v = Inr l"
      and rest: "collect_lookups cls items (acc @ [l]) = Inr ls"
      by (auto split: sum.splits)
    from Cons.IH [OF rest] obtain new where "ls = (acc @ [l]) @ new"
      "list_all2 (\<lambda>p l. parse_key cls (fst p) (snd p) = Inr l)
         (filter (\<lambda>p. \<not> reserved cls (fst p)) items) new"
      by blast
    then have "ls = acc @ (l # new)
      \<and> list_all2 (\<lambda>p l. parse_key cls (fst p) (snd p) = Inr l)
         (filter (\<lambda>p. \<not> reserved cls (fst p)) (p # items)) (l # new)"
      using False p l by simp
    then show ?thesis by blast
  qed
qed

lemma parse_key_Inr:
  assumes "parse_key cls k v = Inr l"
  shows "raw_value l = v \<and> field_name l \<in> set (map fst (schema cls))"
  using assms
  by (force simp: parse_key_def split: sum.splits list.splits option.splits if_splits prod.splits)

lemma add_criteria_Inr:
  assumes "add_criteria cls vals ls q = Inr q'"
  shows "\<exists>xs. q' = q\<lparr>whereclause := whereclause q @ xs\<rparr>
     \<and> list_all2 (\<lambda>l c. \<exists>x. map_of vals (field_name l) = Some x
                        \<and> c = Criterion (field_name l) (lookup l) x) ls xs"
  using assms
proof (induction ls arbitrary: q)
  case Nil
  then show ?case by simp
next
  case (Cons l ls)
  from Cons.prems obtain x where x: "map_of vals (field_name l) = Some x"
    and rest: "add_criteria cls vals ls
        (q\<lparr>whereclause := whereclause q @ [Criterion (field_name l) (lookup l) x]\<rparr>) = Inr q'"
    by (auto simp: column_method_def split: if_splits option.splits sum.splits)
  from Cons.IH [OF rest] obtain xs where
    q': "q' = q\<lparr>whereclause := (whereclause q @ [Criterion (field_name l) (lookup l) x]) @ xs\<rparr>"
    and all: "list_all2 (\<lambda>l c. \<exists>x. map_of vals (field_name l) = Some x
                        \<and> c = Criterion (field_name l) (lookup l) x) ls xs"
    by auto
  have "q' = q\<lparr>whereclause := whereclause q @ (Criterion (field_name l) (lookup l) x # xs)\<rparr>
     \<and> list_all2 (\<lambda>l c. \<exists>x. map_of vals (field_name l) = Some x
                        \<and> c = Criterion (field_name l) (lookup l) x)
         (l # ls) (Criterion (field_name l) (lookup l) x # xs)"
    using q' all x by simp
  then show ?case by blast
qed

lemma validate_fields_values:
  assumes "fst (validate_fields coerce flds obj ctx) = []"
    and "map_of (snd (validate_fields coerce flds obj ctx)) f = Some x"
    and "map_of obj f = Some v"
  shows "\<exists>info. map_of flds f = Some info
     \<and> name_must_contain_space coerce (annotation info) ctx f v = Inr x"
  using assms
proof (induction flds)
  case Nil
  then show ?case by simp
next
  case (Cons p flds)
  obtain g info where p: "p = (g, info)" by (cases p)
  obtain es vals where r: "validate_fields coerce flds obj ctx = (es, vals)"
    by (cases "validate_fields coerce flds obj ctx")
  show ?case
  proof (cases "g = f")
    case True
    with Cons.prems p r validator_error_shape [of coerce "annotation info" ctx f v]
    show ?thesis
      by (auto split: sum.splits)
  next
    case False
    with Cons.prems p r have "fst (validate_fields coerce flds obj ctx) = []"
      "map_of (snd (validate_fields coerce flds obj ctx)) f = Some x"
      by (auto split: option.splits sum.splits)
    from Cons.IH [OF this Cons.prems(3)] False p show ?thesis by simp
  qed
qed

lemma schema_model_validate_Inr:
  assumes "schema_model_validate coerce flds obj ctx = Inr vals"
  shows "fst (validate_fields coerce flds obj ctx) = []
     \<and> snd (validate_fields coerce flds obj ctx) = vals"
  using assms by (auto simp: schema_model_validate_def split: prod.splits list.splits)

lemma validator_context_cong:
  assumes "ctx \<noteq> []" and "ctx' \<noteq> []" and "map_of ctx f = map_of ctx' f"
  shows "name_must_contain_space coerce ann ctx f v = name_must_contain_space coerce ann ctx' f v"
  using assms by (auto simp: name_must_contain_space_def Let_def split: option.splits)

lemma map_of_unique_index:
  assumes "i < length ls"
    and "\<forall>j < length ls. j \<noteq> i \<longrightarrow> field_name (ls ! j) \<noteq> field_name (ls ! i)"
  shows "map_of (py_dict (map (\<lambda>l. (field_name l, g l)) ls)) (field_name (ls ! i))
      = Some (g (ls ! i))"
proof -
  let ?xs = "rev (map (\<lambda>l. (field_name l, g l)) ls)"
  have in_set: "(field_name (ls ! i), g (ls ! i)) \<in> set ?xs"
    using assms(1) by (auto intro!: image_eqI [where x = "ls ! i"])
  have uniq: "\<forall>v'. (field_name (ls ! i), v') \<in> set ?xs \<longrightarrow> v' = g (ls ! i)"
  proof (intro allI impI)
    fix v' assume "(field_name (ls ! i), v') \<in> set ?xs"
    then obtain j where j: "j < length ls" "field_name (ls ! j) = field_name (ls ! i)"
      "v' = g (ls ! j)"
      by (auto simp: in_set_conv_nth)
    with assms(2) have "j = i" by blast
    with j show "v' = g (ls ! i)" by simp
  qed
  show ?thesis
    unfolding map_of_py_dict by (rule map_of_unique [OF in_set uniq])
qed

text \<open>
  C2, as the code has it. Let the filter stage succeed on a request in which the key \<open>k\<close>,
  not a reserved one, occurs once or several times, and let \<open>v\<close> be the value of its last
  occurrence. Among the keys the stage parses, \<open>k\<close> stands at exactly one position, with
  the value \<open>v\<close>; the lookups and the criteria added to the query correspond to these keys
  position by position, so \<open>k\<close> has one lookup, the one parsed from \<open>k\<close> and \<open>v\<close>, and one
  criterion, on the lookup's field and column method. When no other key of the request
  is parsed to a lookup on the same field, the argument of that criterion is the result
  of validating \<open>v\<close> under the lookup of \<open>k\<close>.
\<close>

theorem repeated_key_last_value:
  assumes ok: "filter_stage cls coerce self = Inr self'"
    and key: "k \<in> fst ` set (request self)" and nr: "\<not> reserved cls k"
  shows "\<exists>v keys ls xs i.
      v = snd (last (filter (\<lambda>p. fst p = k) (request self)))
    \<and> keys = filter (\<lambda>p. \<not> reserved cls (fst p)) (query_params self)
    \<and> collect_lookups cls (query_params self) [] = Inr ls
    \<and> whereclause (query self') = whereclause (query self) @ xs
    \<and> length ls = length keys \<and> length xs = length keys
    \<and> i < length keys \<and> keys ! i = (k, v) \<and> (\<forall>j < length keys. fst (keys ! j) = k \<longrightarrow> j = i)
    \<and> parse_key cls k v = Inr (ls ! i)
    \<and> (\<exists>x. xs ! i = Criterion (field_name (ls ! i)) (lookup (ls ! i)) x
          \<and> ((\<forall>j < length ls. j \<noteq> i \<longrightarrow> field_name (ls ! j) \<noteq> field_name (ls ! i)) \<longrightarrow>
               (\<exists>info. map_of (schema cls) (field_name (ls ! i)) = Some info
                  \<and> name_must_contain_space coerce (annotation info)
                       [(field_name (ls ! i), lookup (ls ! i))] (field_name (ls ! i)) v
                     = Inr x)))"
proof -
  define v where "v = snd (last (filter (\<lambda>p. fst p = k) (request self)))"
  define keys where "keys = filter (\<lambda>p. \<not> reserved cls (fst p)) (query_params self)"
  let ?obj = "\<lambda>ls. py_dict (map (\<lambda>l. (field_name l, raw_value l)) ls)"
  let ?ctx = "\<lambda>ls. py_dict (map (\<lambda>l. (field_name l, lookup l)) ls)"
  from ok obtain ls vals q where cl: "collect_lookups cls (query_params self) [] = Inr ls"
    and smv: "schema_model_validate coerce (schema cls) (?obj ls) (?ctx ls) = Inr vals"
    and ac: "add_criteria cls vals ls (query self) = Inr q"
    and self': "self' = self\<lparr>query := q\<rparr>"
    by (auto simp: filter_stage_def split: sum.splits)
  from collect_lookups_Inr [OF cl]
  have all2: "list_all2 (\<lambda>p l. parse_key cls (fst p) (snd p) = Inr l) keys ls"
    by (simp add: keys_def)
  from add_criteria_Inr [OF ac] obtain xs where
    q: "q = (query self)\<lparr>whereclause := whereclause (query self) @ xs\<rparr>"
    and crit: "list_all2 (\<lambda>l c. \<exists>x. map_of vals (field_name l) = Some x
                        \<and> c = Criterion (field_name l) (lookup l) x) ls xs"
    by blast
  have len_ls: "length ls = length keys" using all2 by (simp add: list_all2_lengthD)
  have len_xs: "length xs = length keys" using crit len_ls by (simp add: list_all2_lengthD)
  \<comment> \<open>the key has one entry in the mapping, with its last value\<close>
  from key have "filter (\<lambda>p. fst p = k) (request self) \<noteq> []"
    by (auto simp: filter_empty_conv)
  then have "map_of (query_params self) k = Some v"
    by (simp add: query_params_def map_of_py_dict map_of_rev_last v_def)
  then have "(k, v) \<in> set (query_params self)" by (rule map_of_SomeD)
  with nr have "(k, v) \<in> set keys" by (simp add: keys_def)
  then obtain i where i: "i < length keys" "keys ! i = (k, v)"
    by (auto simp: in_set_conv_nth)
  have "distinct (map fst (query_params self))"
    by (simp add: query_params_def distinct_py_dict)
  then have dk: "distinct (map fst keys)"
    unfolding keys_def by (rule distinct_map_filter)
  have uniq: "\<forall>j < length keys. fst (keys ! j) = k \<longrightarrow> j = i"
  proof (intro allI impI)
    fix j assume j: "j < length keys" "fst (keys ! j) = k"
    then have "map fst keys ! j = map fst keys ! i" using i by simp
    moreover have "j < length (map fst keys)" "i < length (map fst keys)"
      using j(1) i(1) by simp_all
    ultimately show "j = i" using dk by (simp only: nth_eq_iff_index_eq)
  qed
  have pk: "parse_key cls k v = Inr (ls ! i)"
    using list_all2_nthD [OF all2 i(1)] i(2) by simp
  from list_all2_nthD [OF crit, of i] i(1) len_ls
  obtain x where x: "map_of vals (field_name (ls ! i)) = Some x"
    and xi: "xs ! i = Criterion (field_name (ls ! i)) (lookup (ls ! i)) x"
    by auto
  have alone: "\<exists>info. map_of (schema cls) (field_name (ls ! i)) = Some info
      \<and> name_must_contain_space coerce (annotation info)
           [(field_name (ls ! i), lookup (ls ! i))] (field_name (ls ! i)) v = Inr x"
    if only: "\<forall>j < length ls. j \<noteq> i \<longrightarrow> field_name (ls ! j) \<noteq> field_name (ls ! i)"
  proof -
    have il: "i < length ls" using i(1) len_ls by simp
    have rv: "raw_value (ls ! i) = v" using parse_key_Inr [OF pk] by simp
    have mo: "map_of (?obj ls) (field_name (ls ! i)) = Some v"
      using map_of_unique_index [OF il only, of raw_value] rv by simp
    have mc: "map_of (?ctx ls) (field_name (ls ! i)) = Some (lookup (ls ! i))"
      by (rule map_of_unique_index [OF il only])
    then have cne: "?ctx ls \<noteq> []" by auto
    from schema_model_validate_Inr [OF smv]
    have "fst (validate_fields coerce (schema cls) (?obj ls) (?ctx ls)) = []"
      and "map_of (snd (validate_fields coerce (schema cls) (?obj ls) (?ctx ls)))
             (field_name (ls ! i)) = Some x"
      using x by simp_all
    from validate_fields_values [OF this mo] obtain info where
      info: "map_of (schema cls) (field_name (ls ! i)) = Some info"
      and res: "name_must_contain_space coerce (annotation info) (?ctx ls)
                  (field_name (ls ! i)) v = Inr x"
      by blast
    have "name_must_contain_space coerce (annotation info) (?ctx ls) (field_name (ls ! i)) v
        = name_must_contain_space coerce (annotation info)
            [(field_name (ls ! i), lookup (ls ! i))] (field_name (ls ! i)) v"
      by (rule validator_context_cong [OF cne]) (simp_all add: mc)
    with info res show ?thesis by simp
  qed
  have wc: "whereclause (query self') = whereclause (query self) @ xs"
    using self' q by simp
  show ?thesis
    using v_def keys_def cl wc len_ls len_xs i uniq pk xi alone by blast
qed

theorem repeated_key_last_value_witness:
  "filter_stage Person sample_coerce
      (new_filter [(''age__gt'', ''1''), (''name'', ''Ann''), (''age__gt'', ''2'')])
     = Inr ((new_filter [(''age__gt'', ''1''), (''name'', ''Ann''), (''age__gt'', ''2'')])
         \<lparr>query := select\<lparr>whereclause :=
            [Criterion ''age'' ''__gt__'' (Scalar (VInt 2)),
             Criterion ''name'' ''__eq__'' (Scalar (VStr ''Ann''))]\<rparr>\<rparr>)
   \<and> parse_key Person ''age__gt'' ''2''
     = Inr \<lparr>field_name = ''age'', lookup = ''__gt__'', raw_value = ''2''\<rparr>
   \<and> (\<exists>info. map_of (schema Person) ''age'' = Some info
        \<and> name_must_contain_space sample_coerce (annotation info) [(''age'', ''__gt__'')]
             ''age'' ''2'' = Inr (Scalar (VInt 2)))"
proof -
  let ?self = "new_filter [(''age__gt'', ''1''), (''name'', ''Ann''), (''age__gt'', ''2'')]"
  let ?self' = "?self\<lparr>query := select\<lparr>whereclause :=
            [Criterion ''age'' ''__gt__'' (Scalar (VInt 2)),
             Criterion ''name'' ''__eq__'' (Scalar (VStr ''Ann''))]\<rparr>\<rparr>"
  have ok: "filter_stage Person sample_coerce ?self = Inr ?self'"
    by (simp add: filter_stage_def column_method_def query_params_def py_dict_def reserved_def parse_key_def
        ORM_LOOKUP_MAPPING_def Person_def schema_model_validate_def name_must_contain_space_def
        ValidationModel_validate_def sample_coerce_def decimal_int_def select_def new_filter_def)
  have key: "''age__gt'' \<in> fst ` set (request ?self)" by (simp add: new_filter_def)
  have nr: "\<not> reserved Person ''age__gt''" by (simp add: reserved_def Person_def)
  have r: "request ?self = [(''age__gt'', ''1''), (''name'', ''Ann''), (''age__gt'', ''2'')]"
    by (simp add: new_filter_def)
  have q: "query_params ?self = [(''age__gt'', ''2''), (''name'', ''Ann'')]"
    by (simp add: query_params_def new_filter_def py_dict_def)
  have w: "whereclause (query ?self) = []" "whereclause (query ?self')
      = [Criterion ''age'' ''__gt__'' (Scalar (VInt 2)),
         Criterion ''name'' ''__eq__'' (Scalar (VStr ''Ann''))]"
    by (simp_all add: new_filter_def select_def)
  from repeated_key_last_value [OF ok key nr]
  obtain v keys ls xs i x where v: "v = snd (last (filter (\<lambda>p. fst p = ''age__gt'') (request ?self)))"
    and keys: "keys = filter (\<lambda>p. \<not> reserved Person (fst p)) (query_params ?self)"
    and cl: "collect_lookups Person (query_params ?self) [] = Inr ls"
    and wc: "whereclause (query ?self') = whereclause (query ?self) @ xs"
    and uniq: "\<forall>j < length keys. fst (keys ! j) = ''age__gt'' \<longrightarrow> j = i"
    and pk: "parse_key Person ''age__gt'' v = Inr (ls ! i)"
    and xi: "xs ! i = Criterion (field_name (ls ! i)) (lookup (ls ! i)) x"
    and alone: "(\<forall>j < length ls. j \<noteq> i \<longrightarrow> field_name (ls ! j) \<noteq> field_name (ls ! i)) \<longrightarrow>
               (\<exists>info. map_of (schema Person) (field_name (ls ! i)) = Some info
                  \<and> name_must_contain_space sample_coerce (annotation info)
                       [(field_name (ls ! i), lookup (ls ! i))] (field_name (ls ! i)) v
                     = Inr x)"
    by blast
  have v2: "v = ''2''" using v r by simp
  have keys2: "keys = [(''age__gt'', ''2''), (''name'', ''Ann'')]"
    using keys q by (simp add: reserved_def Person_def)
  have ls2: "ls = [\<lparr>field_name = ''age'', lookup = ''__gt__'', raw_value = ''2''\<rparr>,
                   \<lparr>field_name = ''name'', lookup = ''__eq__'', raw_value = ''Ann''\<rparr>]"
    using cl unfolding q
    by (simp add: reserved_def parse_key_def ORM_LOOKUP_MAPPING_def Person_def)
  have i0: "i = 0" using uniq [THEN spec, of 0] keys2 by simp
  have xs2: "xs = [Criterion ''age'' ''__gt__'' (Scalar (VInt 2)),
                   Criterion ''name'' ''__eq__'' (Scalar (VStr ''Ann''))]"
    using wc w by simp
  have x2: "x = Scalar (VInt 2)" using xi xs2 i0 ls2 by simp
  have prem: "\<forall>j < length ls. j \<noteq> i \<longrightarrow> field_name (ls ! j) \<noteq> field_name (ls ! i)"
    using ls2 i0 by (auto simp: less_Suc_eq)
  from alone [THEN mp, OF prem] pk
  have "parse_key Person ''age__gt'' ''2''
     = Inr \<lparr>field_name = ''age'', lookup = ''__gt__'', raw_value = ''2''\<rparr>
   \<and> (\<exists>info. map_of (schema Person) ''age'' = Some info
        \<and> name_must_contain_space sample_coerce (annotation info) [(''age'', ''__gt__'')]
             ''age'' ''2'' = Inr (Scalar (VInt 2)))"
    unfolding v2 x2 ls2 i0 by simp
  with ok show ?thesis by blast
qed

text \<open>
  Two requests on which the claim fails. In the first the key \<^verbatim>\<open>age__gt\<close> is repeated and a
  later key names the same field: the criterion of \<^verbatim>\<open>age__gt\<close> is built from 9, the value of
  \<^verbatim>\<open>age__lt\<close>, not from 2. In the second the repeated key is a reserved one, which the filter
  stage skips: it has no criterion.
\<close>

theorem repeated_key_counterexample:
  "filter_stage Person sample_coerce
      (new_filter [(''age__gt'', ''1''), (''age__gt'', ''2''), (''age__lt'', ''9'')])
     = Inr ((new_filter [(''age__gt'', ''1''), (''age__gt'', ''2''), (''age__lt'', ''9'')])
         \<lparr>query := select\<lparr>whereclause :=
            [Criterion ''age'' ''__gt__'' (Scalar (VInt 9)),
             Criterion ''age'' ''__lt__'' (Scalar (VInt 9))]\<rparr>\<rparr>)
   \<and> filter_stage Person sample_coerce (new_filter [(''page'', ''1''), (''page'', ''2'')])
     = Inr ((new_filter [(''page'', ''1''), (''page'', ''2'')])
         \<lparr>query := select\<lparr>whereclause := []\<rparr>\<rparr>)"
  by (simp add: filter_stage_def column_method_def query_params_def py_dict_def reserved_def parse_key_def
      ORM_LOOKUP_MAPPING_def Person_def schema_model_validate_def name_must_contain_space_def
      ValidationModel_validate_def sample_coerce_def decimal_int_def select_def new_filter_def)

end
